theory Spec2Isabelle
  imports Complex_Main
begin

section \<open>The page script \<open>jss.js\<close>: data model\<close>

text \<open>
  The script keeps an in-memory history of analysed images, renders a card and a table
  row for each of them, projects the history onto two charts and exports it as CSV or
  as a printable report. The model below follows the script function by function.

  Conventions of the embedding.
  \<^item> A JavaScript string is a \<open>string\<close>; one \<open>char\<close> stands for one code unit (the
    micro sign of \<open>SIZE_BUCKETS\<close> is the code unit \<open>0xB5\<close>).
  \<^item> \<open>undefined\<close> is \<open>None\<close>: an array read out of range gives \<open>None\<close>.
  \<^item> The counts of a record are integers (\<open>Math.floor\<close> of a draw), so they are \<open>int\<close>.
  \<^item> A finite Number is the real number it denotes. \<open>Math.random()\<close> is an input: the
    k-th call of one \<open>fakeDetection\<close> run returns \<open>rnd k\<close>. The rounding of an exact
    sum or product to a Number is a parameter \<open>fl\<close> of the model; the theorems that depend
    on it assume that \<open>fl\<close> returns a nearest binary64 value.
  \<^item> \<open>Number\<close>, applied to the accuracy string by \<open>updateCharts\<close>, is a parameter
    \<open>Number\<close> of the model, with an arbitrary result type \<open>'n\<close>.
  \<^item> The DOM is kept as data: the children of \<open>imageGrid\<close> and of the history table
    body are lists of the values interpolated into their templates; alerts, downloads,
    opened windows and pending timers are logged in the page state.
\<close>

subsection \<open>Constants\<close>

definition TYPES :: "string list" where
  "TYPES = [''Fiber'', ''Fragment'', ''Pellet'', ''Microbead'']"

definition COLORS :: "string list" where
  "COLORS = [''#3b82f6'', ''#f97316'', ''#22c55e'', ''#a855f7'']"

definition SIZE_BUCKETS :: "string list" where
  "SIZE_BUCKETS =
     [''<10 '' @ [CHR 0xB5] @ ''m'', ''10-50 '' @ [CHR 0xB5] @ ''m'',
      ''50-100 '' @ [CHR 0xB5] @ ''m'', ''>100 '' @ [CHR 0xB5] @ ''m'']"

subsection \<open>Records of the script\<close>

text \<open>An item of \<open>allImages\<close>: \<open>{name, shortName, counts, size, accuracy}\<close>.\<close>

record AnalyzedImage =
  img_name :: string
  img_shortName :: string
  img_counts :: "int list"
  img_size :: "string option"
  img_accuracy :: string

text \<open>The result of \<open>fakeDetection\<close>: \<open>{counts, size, accuracy}\<close>.\<close>

record detection =
  det_counts :: "int list"
  det_size :: "string option"
  det_accuracy :: string

text \<open>
  A card prepended to \<open>imageGrid\<close>: the values interpolated into its template
  (image source and alt text, heading, dominant type, size, accuracy, counts).
\<close>

record card =
  card_src :: string
  card_alt :: string
  card_heading :: string
  card_domType :: string
  card_size :: string
  card_accuracy :: string
  card_counts :: string

text \<open>
  A table row of four cells (image, dominant type, size, accuracy): a row of the history
  table, and a row of the printed report, which the script builds from the same template.
\<close>

record trow =
  row_name :: string
  row_domType :: string
  row_size :: string
  row_accuracy :: string

text \<open>A dataset of the composition chart.\<close>

record dataset =
  ds_label :: string
  ds_data :: "int option list"
  ds_backgroundColor :: "string option"

text \<open>A file offered for download: the \<open>download\<close> attribute, the blob's type and content.\<close>

record download =
  dl_filename :: string
  dl_type :: string
  dl_content :: string

text \<open>
  The document written into a print window: the generation time and the rows of its table.
\<close>

record report =
  rep_generated :: string
  rep_rows :: "trow list"

text \<open>
  A window opened by \<open>printReport\<close>: the documents written into it and the number of
  \<open>print()\<close> calls it received.
\<close>

record print_window =
  pw_written :: "report list"
  pw_prints :: nat

text \<open>
  What a callback waiting in \<open>setTimeout\<close> runs; the \<open>timers\<close> of the page pair it with
  its delay.
\<close>

datatype task = UpdateCharts | PrintWindow nat

record 'n page =
  allImages :: "AnalyzedImage list"
  imageGrid :: "card list"
  historyTableBody :: "trow list"
  comp_labels :: "string list"
  comp_datasets :: "dataset list"
  acc_labels :: "string list"
  acc_data :: "'n list"
  alerts :: "string list"
  downloads :: "download list"
  windows :: "print_window list"
  timers :: "(nat \<times> task) list"

section \<open>JavaScript primitives the script uses\<close>

text \<open>\<open>a[i]\<close> on an array: \<open>undefined\<close> outside \<open>0 .. length - 1\<close>.\<close>

definition js_index :: "'a list \<Rightarrow> int \<Rightarrow> 'a option" where
  "js_index xs i = (if 0 \<le> i \<and> i < int (length xs) then Some (xs ! nat i) else None)"

text \<open>
  \<open>Math.max(...xs)\<close> on integers: the largest argument, and \<open>-Infinity\<close> (here \<open>None\<close>)
  when there is none.
\<close>

fun Math_max :: "int list \<Rightarrow> int option" where
  "Math_max [] = None"
| "Math_max (x # xs) = Some (fold max xs x)"

text \<open>
  \<open>xs.indexOf(v)\<close>: the first index whose element is strictly equal to \<open>v\<close>, and \<open>-1\<close>
  when there is none. No integer is equal to \<open>-Infinity\<close>.
\<close>

fun indexOf_from :: "int list \<Rightarrow> int option \<Rightarrow> int \<Rightarrow> int" where
  "indexOf_from [] v k = - 1"
| "indexOf_from (x # xs) v k = (if Some x = v then k else indexOf_from xs v (k + 1))"

definition indexOf :: "int list \<Rightarrow> int option \<Rightarrow> int" where
  "indexOf xs v = indexOf_from xs v 0"

text \<open>
  The finite values of the binary64 format: an integer of magnitude below \<open>2^53\<close> times a
  power of two between \<open>2^-1074\<close> and \<open>2^971\<close>; the largest is \<open>max_double\<close>. A rounding
  \<open>fl\<close> is to nearest when, for every exact value within the range of the format, its
  result is such a value and no such value is closer to the exact one. How ties are
  broken is left open, and so is the result beyond the range (where a Number overflows
  to an infinity).
\<close>

definition is_double :: "real \<Rightarrow> bool" where
  "is_double d \<longleftrightarrow>
     (\<exists>m :: int. \<exists>k :: nat. \<bar>m\<bar> < 2 ^ 53 \<and>
        ((k \<le> 971 \<and> d = of_int m * 2 ^ k) \<or> (k \<le> 1074 \<and> d = of_int m / 2 ^ k)))"

definition max_double :: real where
  "max_double = (2 ^ 53 - 1) * 2 ^ 971"

definition rounds_to_nearest :: "(real \<Rightarrow> real) \<Rightarrow> bool" where
  "rounds_to_nearest fl \<longleftrightarrow>
     (\<forall>x. \<bar>x\<bar> \<le> max_double \<longrightarrow>
          is_double (fl x) \<and> (\<forall>d. is_double d \<longrightarrow> \<bar>fl x - x\<bar> \<le> \<bar>d - x\<bar>))"

text \<open>One rounding to nearest, for concrete instances.\<close>

definition nearest_double :: "real \<Rightarrow> real" where
  "nearest_double x = arg_min_on (\<lambda>d. \<bar>d - x\<bar>) (Collect is_double)"

text \<open>Decimal digits of a natural number, and \<open>String(n)\<close> of an integer.\<close>

definition digit_char :: "nat \<Rightarrow> char" where
  "digit_char d = char_of (48 + d)"

function dec_nat :: "nat \<Rightarrow> string" where
  "dec_nat n = (if n < 10 then [digit_char n] else dec_nat (n div 10) @ [digit_char (n mod 10)])"
  by pat_completeness auto
termination
  by (relation "measure id") auto

declare dec_nat.simps [simp del]

definition String_int :: "int \<Rightarrow> string" where
  "String_int i = (if i < 0 then ''-'' @ dec_nat (nat (- i)) else dec_nat (nat i))"

text \<open>
  A value that the script turns into text: a string, an integer or \<open>undefined\<close>.
  \<open>String_js\<close> is \<open>String(c)\<close>, which is also what a template literal interpolates.
\<close>

datatype cell = CStr string | CNum int | CUndefined

fun String_js :: "cell \<Rightarrow> string" where
  "String_js (CStr s) = s"
| "String_js (CNum i) = String_int i"
| "String_js CUndefined = ''undefined''"

definition cell_of :: "string option \<Rightarrow> cell" where
  "cell_of v = (case v of None \<Rightarrow> CUndefined | Some s \<Rightarrow> CStr s)"

text \<open>\<open>xs.join(sep)\<close> on strings.\<close>

fun join :: "string \<Rightarrow> string list \<Rightarrow> string" where
  "join sep [] = []"
| "join sep [x] = x"
| "join sep (x # y # ys) = x @ sep @ join sep (y # ys)"

text \<open>
  \<open>x.toFixed(1)\<close> for a finite \<open>x\<close> below \<open>10^21\<close> in magnitude: the integer \<open>n\<close> nearest
  to \<open>10 * x\<close> (the larger one of two), written with one digit after the point and padded
  to at least one digit before it.
\<close>

definition toFixed1 :: "real \<Rightarrow> string" where
  "toFixed1 x =
     (let s = (if x < 0 then ''-'' else '''');
          y = \<bar>x\<bar>;
          n = nat \<lfloor>y * 10 + 1 / 2\<rfloor>;
          m = dec_nat n;
          m' = (if length m \<le> 1 then ''0'' @ m else m);
          k = length m'
      in s @ take (k - 1) m' @ ''.'' @ drop (k - 1) m')"

section \<open>The functions of the script\<close>

text \<open>\<open>shortName\<close>: names longer than 18 are cut to 15 characters and an ellipsis.\<close>

definition shortName :: "string \<Rightarrow> string" where
  "shortName n = (if length n > 18 then take 15 n @ ''...'' else n)"

text \<open>
  The expression \<open>counts.indexOf(Math.max(...counts))\<close>, which the script repeats in
  \<open>addHistoryRow\<close>, in the card template, in \<open>downloadCSV\<close> and in \<open>printReport\<close>.
\<close>

definition domTypeIndex :: "int list \<Rightarrow> int" where
  "domTypeIndex counts = indexOf counts (Math_max counts)"

text \<open>\<open>TYPES[domTypeIndex] || "Unknown"\<close>: \<open>undefined\<close> and the empty string are falsy.\<close>

definition or_Unknown :: "string option \<Rightarrow> string" where
  "or_Unknown v = (case v of None \<Rightarrow> ''Unknown'' | Some s \<Rightarrow> if s = [] then ''Unknown'' else s)"

text \<open>\<open>addHistoryRow\<close>: the row appended to the history table.\<close>

definition history_row :: "AnalyzedImage \<Rightarrow> trow" where
  "history_row imgObj =
     (let domTypeIndex = indexOf (img_counts imgObj) (Math_max (img_counts imgObj));
          domType = or_Unknown (js_index TYPES domTypeIndex)
      in \<lparr>row_name = img_name imgObj, row_domType = domType,
          row_size = String_js (cell_of (img_size imgObj)),
          row_accuracy = img_accuracy imgObj @ ''%''\<rparr>)"

definition addHistoryRow :: "AnalyzedImage \<Rightarrow> 'n page \<Rightarrow> 'n page" where
  "addHistoryRow imgObj s = s\<lparr>historyTableBody := historyTableBody s @ [history_row imgObj]\<rparr>"

text \<open>
  \<open>fakeDetection\<close>: four counts from the calls \<open>0..3\<close> of \<open>Math.random\<close>, the first one
  forced to 1 when they sum to 0; the size bucket from call 4; the accuracy from call 5.
  Each product and sum of Numbers is rounded by \<open>fl\<close>; the counts are integers, whose sum
  is exact.
\<close>

definition fakeDetection :: "(real \<Rightarrow> real) \<Rightarrow> string \<Rightarrow> (nat \<Rightarrow> real) \<Rightarrow> detection" where
  "fakeDetection fl fileName rnd =
     (let counts0 = map (\<lambda>k. \<lfloor>fl (rnd k * 6)\<rfloor>) [0 ..< length TYPES];
          counts = (if fold (\<lambda>b a. a + b) counts0 0 = 0 then counts0[0 := 1] else counts0);
          size = js_index SIZE_BUCKETS \<lfloor>fl (rnd 4 * real (length SIZE_BUCKETS))\<rfloor>;
          accuracy = toFixed1 (fl (70 + fl (rnd 5 * 29)))
      in \<lparr>det_counts = counts, det_size = size, det_accuracy = accuracy\<rparr>)"

text \<open>\<open>updateCharts\<close>: both charts are rebuilt from \<open>allImages\<close>.\<close>

definition updateCharts :: "(string \<Rightarrow> 'n) \<Rightarrow> 'n page \<Rightarrow> 'n page" where
  "updateCharts Number s =
     (let labels = map img_shortName (allImages s)
      in s\<lparr>comp_labels := labels,
           comp_datasets :=
             map (\<lambda>(typeIndex, ds).
                    ds\<lparr>ds_data := map (\<lambda>img. js_index (img_counts img) (int typeIndex)) (allImages s)\<rparr>)
                 (enumerate 0 (comp_datasets s)),
           acc_labels := labels,
           acc_data := map (\<lambda>img. Number (img_accuracy img)) (allImages s)\<rparr>)"

text \<open>
  The \<open>onload\<close> callback of one file of the \<open>change\<close> handler: \<open>fileName\<close> is
  \<open>file.name\<close>, \<open>src\<close> is \<open>e.target.result\<close>.
\<close>

definition image_card :: "string \<Rightarrow> string \<Rightarrow> detection \<Rightarrow> card" where
  "image_card src short det =
     \<lparr>card_src = src, card_alt = short, card_heading = short,
      card_domType =
        String_js (cell_of (js_index TYPES (indexOf (det_counts det) (Math_max (det_counts det))))),
      card_size = String_js (cell_of (det_size det)),
      card_accuracy = det_accuracy det @ ''%'',
      card_counts = join '', '' (map String_int (det_counts det))\<rparr>"

definition reader_onload ::
  "(real \<Rightarrow> real) \<Rightarrow> string \<Rightarrow> string \<Rightarrow> (nat \<Rightarrow> real) \<Rightarrow> 'n page \<Rightarrow> 'n page" where
  "reader_onload fl fileName src rnd s =
     (let det = fakeDetection fl fileName rnd;
          short = shortName fileName;
          s1 = s\<lparr>imageGrid := image_card src short det # imageGrid s\<rparr>;
          imgObj = \<lparr>img_name = fileName, img_shortName = short, img_counts = det_counts det,
                    img_size = det_size det, img_accuracy = det_accuracy det\<rparr>;
          s2 = s1\<lparr>allImages := allImages s1 @ [imgObj]\<rparr>;
          s3 = addHistoryRow imgObj s2
      in s3\<lparr>timers := timers s3 @ [(100, UpdateCharts)]\<rparr>)"

text \<open>\<open>downloadCSV\<close>.\<close>

definition csv_header :: "cell list" where
  "csv_header = [CStr ''Image'', CStr ''DominantType'', CStr ''Size'', CStr ''Accuracy''] @ map CStr TYPES"

definition csv_row :: "AnalyzedImage \<Rightarrow> cell list" where
  "csv_row img =
     (let domType = js_index TYPES (indexOf (img_counts img) (Math_max (img_counts img)))
      in [CStr (img_name img), cell_of domType, cell_of (img_size img), CStr (img_accuracy img @ ''%'')]
         @ map CNum (img_counts img))"

text \<open>\<open>String(c).replace(/"/g, '""')\<close> between two double quotes.\<close>

definition csv_field :: "cell \<Rightarrow> string" where
  "csv_field c = ''\"'' @ concat (map (\<lambda>ch. if ch = CHR ''\"'' then ''\"\"'' else [ch]) (String_js c)) @ ''\"''"

definition csvContent :: "AnalyzedImage list \<Rightarrow> string" where
  "csvContent imgs =
     (let rows = csv_header # map csv_row imgs
      in join [CHR 0x0A] (map (\<lambda>r. join '','' (map csv_field r)) rows))"

definition downloadCSV :: "'n page \<Rightarrow> 'n page" where
  "downloadCSV s =
     (if length (allImages s) = 0 then s\<lparr>alerts := alerts s @ [''No history to download.'']\<rparr>
      else s\<lparr>downloads := downloads s @
               [\<lparr>dl_filename = ''microplastics_history.csv'',
                 dl_type = ''text/csv;charset=utf-8;'',
                 dl_content = csvContent (allImages s)\<rparr>]\<rparr>)"

text \<open>
  \<open>printReport\<close>: \<open>popup\<close> tells whether \<open>window.open\<close> returns a window, \<open>now\<close> is
  \<open>new Date().toLocaleString()\<close>.
\<close>

definition print_row :: "AnalyzedImage \<Rightarrow> trow" where
  "print_row img =
     (let domType = js_index TYPES (indexOf (img_counts img) (Math_max (img_counts img)))
      in \<lparr>row_name = img_name img, row_domType = String_js (cell_of domType),
          row_size = String_js (cell_of (img_size img)),
          row_accuracy = img_accuracy img @ ''%''\<rparr>)"

definition printReport :: "bool \<Rightarrow> string \<Rightarrow> 'n page \<Rightarrow> 'n page" where
  "printReport popup now s =
     (if length (allImages s) = 0 then s\<lparr>alerts := alerts s @ [''No history to print.'']\<rparr>
      else if \<not> popup then s\<lparr>alerts := alerts s @ [''Popup blocked. Allow popups and try again.'']\<rparr>
      else
        (let printWindow = length (windows s);
             html = \<lparr>rep_generated = now, rep_rows = map print_row (allImages s)\<rparr>
         in s\<lparr>windows := windows s @ [\<lparr>pw_written = [html], pw_prints = 0\<rparr>],
              timers := timers s @ [(400, PrintWindow printWindow)]\<rparr>))"

section \<open>The page as a state machine\<close>

text \<open>The page after the script's top level has run: no history, four empty datasets.\<close>

definition init_page :: "'n page" where
  "init_page =
     \<lparr>allImages = [], imageGrid = [], historyTableBody = [], comp_labels = [],
      comp_datasets =
        map (\<lambda>(i, t). \<lparr>ds_label = t, ds_data = [], ds_backgroundColor = js_index COLORS (int i)\<rparr>)
            (enumerate 0 TYPES),
      acc_labels = [], acc_data = [], alerts = [], downloads = [], windows = [], timers = []\<rparr>"

text \<open>Running a callback that waited in \<open>setTimeout\<close>.\<close>

fun run_task :: "(string \<Rightarrow> 'n) \<Rightarrow> task \<Rightarrow> 'n page \<Rightarrow> 'n page" where
  "run_task Number UpdateCharts s = updateCharts Number s"
| "run_task Number (PrintWindow w) s =
     (if w < length (windows s)
      then s\<lparr>windows := (windows s)[w := (windows s ! w)\<lparr>pw_prints := Suc (pw_prints (windows s ! w))\<rparr>]\<rparr>
      else s)"

text \<open>
  What can happen to the page: a file finishes loading, the k-th pending timer fires, or
  one of the two export buttons is clicked.
\<close>

datatype event =
    Onload string string "nat \<Rightarrow> real"
  | Timeout nat
  | ClickDownloadCsv
  | ClickPrintReport bool string

fun step :: "(real \<Rightarrow> real) \<Rightarrow> (string \<Rightarrow> 'n) \<Rightarrow> event \<Rightarrow> 'n page \<Rightarrow> 'n page" where
  "step fl Number (Onload fileName src rnd) s = reader_onload fl fileName src rnd s"
| "step fl Number (Timeout k) s =
     (if k < length (timers s)
      then run_task Number (snd (timers s ! k)) (s\<lparr>timers := take k (timers s) @ drop (Suc k) (timers s)\<rparr>)
      else s)"
| "step fl Number ClickDownloadCsv s = downloadCSV s"
| "step fl Number (ClickPrintReport popup now) s = printReport popup now s"

definition run :: "(real \<Rightarrow> real) \<Rightarrow> (string \<Rightarrow> 'n) \<Rightarrow> event list \<Rightarrow> 'n page \<Rightarrow> 'n page" where
  "run fl Number es s = fold (step fl Number) es s"

text \<open>The record that \<open>reader_onload\<close> pushes for a file, and the files loaded by a run.\<close>

definition imgObj_of :: "(real \<Rightarrow> real) \<Rightarrow> string \<Rightarrow> (nat \<Rightarrow> real) \<Rightarrow> AnalyzedImage" where
  "imgObj_of fl fileName rnd =
     (let det = fakeDetection fl fileName rnd
      in \<lparr>img_name = fileName, img_shortName = shortName fileName, img_counts = det_counts det,
          img_size = det_size det, img_accuracy = det_accuracy det\<rparr>)"

fun loads :: "event list \<Rightarrow> (string \<times> string \<times> (nat \<Rightarrow> real)) list" where
  "loads [] = []"
| "loads (Onload fileName src rnd # es) = (fileName, src, rnd) # loads es"
| "loads (_ # es) = loads es"

text \<open>The six draws of one \<open>fakeDetection\<close> run are Numbers in \<open>[0, 1)\<close>.\<close>

definition unit_draws :: "(nat \<Rightarrow> real) \<Rightarrow> bool" where
  "unit_draws rnd = list_all (\<lambda>k. is_double (rnd k) \<and> 0 \<le> rnd k \<and> rnd k < 1) [0 ..< 6]"

section \<open>Reading the script's output back\<close>

text \<open>
  Two readers, used only to state what the script writes: the value of an unsigned
  fixed-point numeral with exactly one digit after the point, and the records of a CSV
  document whose fields are all quoted.
\<close>

definition is_digit :: "char \<Rightarrow> bool" where
  "is_digit c = (48 \<le> (of_char c :: nat) \<and> (of_char c :: nat) \<le> 57)"

definition digits_nat :: "string \<Rightarrow> nat" where
  "digits_nat ds = fold (\<lambda>c a. 10 * a + ((of_char c :: nat) - 48)) ds 0"

text \<open>
  \<open>fixed1_value s\<close> is defined exactly when \<open>s\<close> is one or more digits, a point and one
  digit, with nothing before or after.
\<close>

definition fixed1_value :: "string \<Rightarrow> real option" where
  "fixed1_value s =
     (let k = length s
      in if 3 \<le> k \<and> s ! (k - 2) = CHR ''.'' \<and> list_all is_digit (take (k - 2) s) \<and> is_digit (s ! (k - 1))
         then Some (real (digits_nat (take (k - 2) s)) + real (digits_nat (drop (k - 1) s)) / 10)
         else None)"

text \<open>
  The CSV reader is a scanner with three states: at the start of a field, inside a quoted
  field, and after a double quote inside a quoted field (which either is the first half of
  a doubled quote or closes the field). Commas and line feeds inside quotes belong to the
  field. It fails (\<open>None\<close>) on anything but a document of quoted fields.
\<close>

datatype scan_state = FieldStart | InQuoted | QuoteSeen

fun csv_scan :: "scan_state \<Rightarrow> string \<Rightarrow> string list \<Rightarrow> string list list \<Rightarrow> string \<Rightarrow> string list list option" where
  "csv_scan FieldStart fld row rows [] = None"
| "csv_scan FieldStart fld row rows (c # cs) =
     (if c = CHR 0x22 then csv_scan InQuoted [] row rows cs else None)"
| "csv_scan InQuoted fld row rows [] = None"
| "csv_scan InQuoted fld row rows (c # cs) =
     (if c = CHR 0x22 then csv_scan QuoteSeen fld row rows cs
      else csv_scan InQuoted (fld @ [c]) row rows cs)"
| "csv_scan QuoteSeen fld row rows [] = Some (rows @ [row @ [fld]])"
| "csv_scan QuoteSeen fld row rows (c # cs) =
     (if c = CHR 0x22 then csv_scan InQuoted (fld @ [c]) row rows cs
      else if c = CHR '','' then csv_scan FieldStart [] (row @ [fld]) rows cs
      else if c = CHR 0x0A then csv_scan FieldStart [] [] (rows @ [row @ [fld]]) cs
      else None)"

definition csv_read :: "string \<Rightarrow> string list list option" where
  "csv_read doc = csv_scan FieldStart [] [] [] doc"

text \<open>The escaping of \<open>csv_field\<close> and the rendering of one row of \<open>csvContent\<close>, named.\<close>

definition esc :: "string \<Rightarrow> string" where
  "esc s = concat (map (\<lambda>ch. if ch = CHR 0x22 then [CHR 0x22, CHR 0x22] else [ch]) s)"

definition csv_line :: "cell list \<Rightarrow> string" where
  "csv_line r = join '','' (map csv_field r)"

text \<open>
  The card of a stored record: what \<open>reader_onload\<close> prepends to \<open>imageGrid\<close> for the
  record it pushes, given the image source.
\<close>

definition card_of_image :: "string \<Rightarrow> AnalyzedImage \<Rightarrow> card" where
  "card_of_image src img =
     image_card src (img_shortName img)
       \<lparr>det_counts = img_counts img, det_size = img_size img, det_accuracy = img_accuracy img\<rparr>"

text \<open>The chart series of a page: labels and data of both charts.\<close>

definition series :: "'n page \<Rightarrow> string list \<times> int option list list \<times> string list \<times> 'n list" where
  "series s = (comp_labels s, map ds_data (comp_datasets s), acc_labels s, acc_data s)"

text \<open>
  The series that \<open>updateCharts\<close> derives from a list of records: labels, one data
  list per category, labels again and the accuracy data.
\<close>

definition chart_projection ::
  "(string \<Rightarrow> 'n) \<Rightarrow> AnalyzedImage list \<Rightarrow> string list \<times> int option list list \<times> string list \<times> 'n list" where
  "chart_projection Number imgs =
     (map img_shortName imgs,
      map (\<lambda>t. map (\<lambda>img. js_index (img_counts img) (int t)) imgs) [0 ..< 4],
      map img_shortName imgs,
      map (\<lambda>img. Number (img_accuracy img)) imgs)"

text \<open>
  The charts lag behind the store: they show the first \<open>m\<close> records, and when they do not
  show all of them a chart update is waiting in \<open>setTimeout\<close>.
\<close>

definition charts_lag :: "(string \<Rightarrow> 'n) \<Rightarrow> 'n page \<Rightarrow> bool" where
  "charts_lag Number s \<longleftrightarrow>
     (\<exists>m \<le> length (allImages s).
        series s = chart_projection Number (take m (allImages s)) \<and>
        (m = length (allImages s) \<or> UpdateCharts \<in> snd ` set (timers s)))"

text \<open>Sample records and events for concrete instances.\<close>

definition img22 :: AnalyzedImage where
  "img22 = \<lparr>img_name = ''a.png'', img_shortName = ''a.png'', img_counts = [2, 2, 0, 0],
            img_size = Some (''>100 '' @ [CHR 0xB5] @ ''m''), img_accuracy = ''70.0''\<rparr>"

definition img_zero :: AnalyzedImage where
  "img_zero = \<lparr>img_name = ''a.png'', img_shortName = ''a.png'', img_counts = [0, 0, 0, 0],
               img_size = Some (''>100 '' @ [CHR 0xB5] @ ''m''), img_accuracy = ''70.0''\<rparr>"

definition draws_of :: "real list \<Rightarrow> nat \<Rightarrow> real" where
  "draws_of xs k = (if k < length xs then xs ! k else 0)"

definition sample_events :: "event list" where
  "sample_events =
     [Onload ''My\"File.png'' ''data:1'' (draws_of [1 / 2, 7 / 8, 7 / 8, 1 / 8, 1 / 4, 1 / 2]),
      Onload ''a_rather_long_file_name.png'' ''data:2'' (\<lambda>k. 0)]"

text \<open>
  The page after \<open>sample_events\<close>, with the fixed-point reader as \<open>Number\<close>, and the
  detection that goes with \<open>img22\<close>.
\<close>

definition sample_page :: "real option page" where
  "sample_page = run nearest_double fixed1_value sample_events init_page"

definition det22 :: detection where
  "det22 = \<lparr>det_counts = [2, 2, 0, 0], det_size = Some (''>100 '' @ [CHR 0xB5] @ ''m''), det_accuracy = ''70.0''\<rparr>"

section \<open>Facts about the primitives\<close>

subsection \<open>\<open>Math.max\<close> and \<open>indexOf\<close>\<close>

lemma Math_max_Max: "xs \<noteq> [] \<Longrightarrow> Math_max xs = Some (Max (set xs))"
proof (cases xs)
  case Nil
  then show "xs \<noteq> [] \<Longrightarrow> ?thesis" by simp
next
  case (Cons a list)
  show ?thesis unfolding Cons Math_max.simps Max.set_eq_fold ..
qed

lemma indexOf_from_None: "indexOf_from xs None k = - 1"
  by (induction xs arbitrary: k) auto

lemma indexOf_from_in:
  "v \<in> set xs \<Longrightarrow>
     k \<le> indexOf_from xs (Some v) k \<and> indexOf_from xs (Some v) k < k + int (length xs) \<and>
     xs ! nat (indexOf_from xs (Some v) k - k) = v \<and>
     (\<forall>j < nat (indexOf_from xs (Some v) k - k). xs ! j \<noteq> v)"
proof (induction xs arbitrary: k)
  case Nil
  then show ?case by simp
next
  case (Cons x xs)
  show ?case
  proof (cases "x = v")
    case True
    then show ?thesis by simp
  next
    case False
    with Cons.prems have "v \<in> set xs" by simp
    from Cons.IH[OF this, of "k + 1"]
    have a: "k + 1 \<le> indexOf_from xs (Some v) (k + 1)"
      and b: "indexOf_from xs (Some v) (k + 1) < k + 1 + int (length xs)"
      and c: "xs ! nat (indexOf_from xs (Some v) (k + 1) - (k + 1)) = v"
      and d: "\<forall>j < nat (indexOf_from xs (Some v) (k + 1) - (k + 1)). xs ! j \<noteq> v"
      by blast+
    define r where "r = indexOf_from xs (Some v) (k + 1)"
    have e: "nat (r - k) = Suc (nat (r - (k + 1)))" using a unfolding r_def by linarith
    have res: "indexOf_from (x # xs) (Some v) k = r" using False by (simp add: r_def)
    have "\<forall>j < nat (r - k). (x # xs) ! j \<noteq> v"
    proof (intro allI impI)
      fix j assume "j < nat (r - k)"
      then show "(x # xs) ! j \<noteq> v"
        using d False unfolding e r_def[symmetric] by (cases j) auto
    qed
    moreover have "(x # xs) ! nat (r - k) = v" unfolding e using c by (simp add: r_def)
    ultimately show ?thesis unfolding res using a b by (simp add: r_def)
  qed
qed

subsection \<open>Decimal digits and \<open>toFixed(1)\<close>\<close>

lemma digit_char_0: "digit_char 0 = CHR ''0''"
  by code_simp

lemma digit_char_is_digit: "d < 10 \<Longrightarrow> is_digit (digit_char d)"
  by (simp add: is_digit_def digit_char_def)

lemma digit_char_value: "d < 10 \<Longrightarrow> (of_char (digit_char d) :: nat) - 48 = d"
  by (simp add: digit_char_def)

lemma dec_nat_digits: "list_all is_digit (dec_nat n)"
proof (induction n rule: dec_nat.induct)
  case (1 n)
  show ?case
  proof (cases "n < 10")
    case True
    then show ?thesis by (subst dec_nat.simps) (simp add: digit_char_is_digit)
  next
    case False
    with 1 show ?thesis by (subst dec_nat.simps) (simp add: digit_char_is_digit)
  qed
qed

lemma digits_nat_snoc: "digits_nat (ds @ [c]) = 10 * digits_nat ds + ((of_char c :: nat) - 48)"
  by (simp add: digits_nat_def)

lemma digits_nat_dec_nat: "digits_nat (dec_nat n) = n"
proof (induction n rule: dec_nat.induct)
  case (1 n)
  show ?case
  proof (cases "n < 10")
    case True
    then show ?thesis by (subst dec_nat.simps) (simp add: digits_nat_def digit_char_value)
  next
    case False
    with 1 show ?thesis
      by (subst dec_nat.simps) (simp add: digits_nat_snoc digit_char_value)
  qed
qed

lemma dec_nat_nonempty: "dec_nat n \<noteq> []"
  by (subst dec_nat.simps) simp

lemma dec_nat_length_1: "length (dec_nat n) \<le> 1 \<longleftrightarrow> n < 10"
proof (cases "n < 10")
  case True
  then show ?thesis by (subst dec_nat.simps) simp
next
  case False
  then show ?thesis by (subst dec_nat.simps) (simp add: dec_nat_nonempty)
qed

lemma toFixed1_nonneg:
  assumes "0 \<le> x"
  shows "toFixed1 x = dec_nat (nat \<lfloor>x * 10 + 1 / 2\<rfloor> div 10) @ ''.'' @ [digit_char (nat \<lfloor>x * 10 + 1 / 2\<rfloor> mod 10)]"
proof -
  define n where "n = nat \<lfloor>x * 10 + 1 / 2\<rfloor>"
  have pad: "(if length (dec_nat n) \<le> 1 then ''0'' @ dec_nat n else dec_nat n)
             = dec_nat (n div 10) @ [digit_char (n mod 10)]"
  proof (cases "n < 10")
    case True
    then have "dec_nat n = [digit_char n]" by (subst dec_nat.simps) simp
    moreover from True have "dec_nat (n div 10) = ''0''"
      by (subst dec_nat.simps) (simp add: digit_char_0)
    ultimately show ?thesis using True by simp
  next
    case False
    then have "dec_nat n = dec_nat (n div 10) @ [digit_char (n mod 10)]"
      by (subst dec_nat.simps) simp
    moreover from False have "\<not> length (dec_nat n) \<le> 1" using dec_nat_length_1[of n] by blast
    ultimately show ?thesis by simp
  qed
  have abs: "\<bar>x\<bar> = x" using assms by simp
  show ?thesis
    unfolding toFixed1_def Let_def abs n_def[symmetric] pad
    using assms by simp
qed

lemma fixed1_value_shape:
  assumes "ds \<noteq> []" "list_all is_digit ds" "is_digit d"
  shows "fixed1_value (ds @ ''.'' @ [d]) = Some (real (digits_nat ds) + real ((of_char d :: nat) - 48) / 10)"
proof -
  have k: "length (ds @ ''.'' @ [d]) = length ds + 2" by simp
  have "3 \<le> length ds + 2" using assms(1) by (cases ds) auto
  moreover have "(ds @ ''.'' @ [d]) ! (length ds + 2 - 2) = CHR ''.''" by (simp add: nth_append)
  moreover have "(ds @ ''.'' @ [d]) ! (length ds + 2 - 1) = d" by (simp add: nth_append)
  moreover have "take (length ds + 2 - 2) (ds @ ''.'' @ [d]) = ds" by simp
  moreover have "drop (length ds + 2 - 1) (ds @ ''.'' @ [d]) = [d]" by simp
  moreover have "digits_nat [d] = (of_char d :: nat) - 48" by (simp add: digits_nat_def)
  ultimately show ?thesis
    unfolding fixed1_value_def Let_def k using assms by simp
qed

lemma fixed1_value_toFixed1:
  assumes "0 \<le> x"
  shows "fixed1_value (toFixed1 x) = Some (real_of_int \<lfloor>x * 10 + 1 / 2\<rfloor> / 10)"
proof -
  define n where "n = nat \<lfloor>x * 10 + 1 / 2\<rfloor>"
  have n: "int n = \<lfloor>x * 10 + 1 / 2\<rfloor>" using assms by (simp add: n_def)
  have "fixed1_value (toFixed1 x) = Some (real (n div 10) + real (n mod 10) / 10)"
    unfolding toFixed1_nonneg[OF assms] n_def[symmetric]
    by (subst fixed1_value_shape)
       (simp_all add: dec_nat_nonempty dec_nat_digits digit_char_is_digit digits_nat_dec_nat digit_char_value)
  also have "real (n div 10) + real (n mod 10) / 10 = real n / 10"
  proof -
    have "real n = real (10 * (n div 10) + n mod 10)" by simp
    also have "\<dots> = 10 * real (n div 10) + real (n mod 10)" by (simp only: of_nat_add of_nat_mult of_nat_numeral)
    finally show ?thesis by simp
  qed
  also have "real n = real_of_int \<lfloor>x * 10 + 1 / 2\<rfloor>" using n by (metis of_int_of_nat_eq)
  finally show ?thesis .
qed

subsection \<open>Rounding to nearest\<close>

lemma is_double_int: "\<bar>m\<bar> < 2 ^ 53 \<Longrightarrow> is_double (of_int m)"
  unfolding is_double_def by (rule exI[of _ m], rule exI[of _ 0]) simp

lemma is_double_frac: "\<bar>m\<bar> < 2 ^ 53 \<Longrightarrow> k \<le> 1074 \<Longrightarrow> is_double (of_int m / 2 ^ k)"
  unfolding is_double_def by (rule exI[of _ m], rule exI[of _ k]) simp

lemma finite_doubles: "finite (Collect is_double)"
proof -
  let ?M = "{- (2 ^ 53) <..< 2 ^ 53} :: int set"
  let ?A = "(\<lambda>(m, k). of_int m * 2 ^ k :: real) ` (?M \<times> {0 .. 971 :: nat})"
  let ?B = "(\<lambda>(m, k). of_int m / 2 ^ k :: real) ` (?M \<times> {0 .. 1074 :: nat})"
  have "Collect is_double \<subseteq> ?A \<union> ?B"
  proof
    fix d assume "d \<in> Collect is_double"
    then obtain m :: int and k :: nat where m: "\<bar>m\<bar> < 2 ^ 53"
      and d: "(k \<le> 971 \<and> d = of_int m * 2 ^ k) \<or> (k \<le> 1074 \<and> d = of_int m / 2 ^ k)"
      unfolding is_double_def by auto
    from m have "m \<in> ?M" by auto
    with d show "d \<in> ?A \<union> ?B" by (auto intro!: image_eqI[of _ _ "(m, k)"])
  qed
  moreover have "finite (?A \<union> ?B)" by simp
  ultimately show ?thesis by (rule finite_subset)
qed

lemma nearest_double_rounds: "rounds_to_nearest nearest_double"
proof -
  have ne: "Collect is_double \<noteq> {}" using is_double_int[of 0] by auto
  {
    fix x
    from arg_min_if_finite[OF finite_doubles ne, of "\<lambda>d. \<bar>d - x\<bar>"]
    have "is_double (nearest_double x) \<and> (\<forall>d. is_double d \<longrightarrow> \<bar>nearest_double x - x\<bar> \<le> \<bar>d - x\<bar>)"
      unfolding nearest_double_def by (auto simp: not_less)
  }
  then show ?thesis unfolding rounds_to_nearest_def by blast
qed

lemma small_le_max_double:
  assumes "0 \<le> x" "x \<le> 128"
  shows "\<bar>x\<bar> \<le> max_double"
proof -
  have "(2::real) \<le> 2 ^ 971" by (rule self_le_power) simp_all
  then have "(2 ^ 53 - 1) * (2::real) \<le> (2 ^ 53 - 1) * 2 ^ 971"
    by (rule mult_left_mono) simp
  moreover have "(128::real) \<le> (2 ^ 53 - 1) * 2" by simp
  ultimately have "128 \<le> max_double" unfolding max_double_def by linarith
  with assms show ?thesis by simp
qed

lemma fl_nearest:
  assumes "rounds_to_nearest fl" "is_double d" "0 \<le> x" "x \<le> 128"
  shows "\<bar>fl x - x\<bar> \<le> \<bar>d - x\<bar>"
  using assms(1,2) small_le_max_double[OF assms(3,4)] unfolding rounds_to_nearest_def by blast

lemma fl_le:
  assumes "rounds_to_nearest fl" "is_double d" "0 \<le> x" "x \<le> 128" "x \<le> d"
  shows "fl x \<le> d"
proof (rule ccontr)
  assume "\<not> fl x \<le> d"
  then have "\<bar>d - x\<bar> < \<bar>fl x - x\<bar>" using assms(5) by simp
  moreover have "\<bar>fl x - x\<bar> \<le> \<bar>d - x\<bar>" by (rule fl_nearest[OF assms(1-4)])
  ultimately show False by simp
qed

lemma fl_ge:
  assumes "rounds_to_nearest fl" "is_double d" "0 \<le> x" "x \<le> 128" "d \<le> x"
  shows "d \<le> fl x"
proof (rule ccontr)
  assume "\<not> d \<le> fl x"
  then have "\<bar>d - x\<bar> < \<bar>fl x - x\<bar>" using assms(5) by simp
  moreover have "\<bar>fl x - x\<bar> \<le> \<bar>d - x\<bar>" by (rule fl_nearest[OF assms(1-4)])
  ultimately show False by simp
qed

lemma fl_exact:
  assumes "rounds_to_nearest fl" "is_double d" "0 \<le> d" "d \<le> 128"
  shows "fl d = d"
  using fl_le[OF assms order_refl] fl_ge[OF assms order_refl] by simp

lemma double_below_1:
  assumes "is_double r" "r < 1"
  shows "r \<le> 1 - 1 / 2 ^ 53"
proof -
  from assms(1) obtain m :: int and k :: nat where m: "\<bar>m\<bar> < 2 ^ 53"
    and d: "(k \<le> 971 \<and> r = of_int m * 2 ^ k) \<or> (k \<le> 1074 \<and> r = of_int m / 2 ^ k)"
    unfolding is_double_def by auto
  show ?thesis
  proof (cases "m \<le> 0")
    case True
    then have "r \<le> 0" using d by (auto simp: mult_le_0_iff divide_le_0_iff)
    then show ?thesis by simp
  next
    case False
    then have mp: "1 \<le> m" by simp
    from d show ?thesis
    proof
      assume a: "k \<le> 971 \<and> r = of_int m * 2 ^ k"
      have "(1::real) \<le> of_int m * 2 ^ k"
        using mp by (metis mult_mono' of_int_1_le_iff one_le_numeral one_le_power mult_1 zero_le_one)
      with a assms(2) show ?thesis by simp
    next
      assume a: "k \<le> 1074 \<and> r = of_int m / 2 ^ k"
      show ?thesis
      proof (cases "k \<le> 53")
        case True
        define j where "j = 53 - k"
        have kj: "(2::real) ^ 53 = 2 ^ k * 2 ^ j" unfolding j_def using True by (simp flip: power_add)
        have "r * 2 ^ 53 = of_int m * 2 ^ j" using a unfolding kj by simp
        also have "\<dots> = of_int (m * 2 ^ j)" by simp
        finally have e: "r * 2 ^ 53 = of_int (m * 2 ^ j)" .
        have "r * 2 ^ 53 < 2 ^ 53" using assms(2) by simp
        then have "of_int (m * 2 ^ j) < (of_int (2 ^ 53) :: real)" unfolding e by simp
        then have "m * 2 ^ j < 2 ^ 53" by (simp only: of_int_less_iff)
        then have "m * 2 ^ j \<le> 2 ^ 53 - 1" by simp
        then have "(of_int (m * 2 ^ j) :: real) \<le> of_int (2 ^ 53 - 1)" by (simp only: of_int_le_iff)
        then have "r * 2 ^ 53 \<le> 2 ^ 53 - 1" unfolding e by simp
        then show ?thesis by (simp add: field_simps)
      next
        case False
        then have "54 \<le> k" by simp
        then have "(2::real) ^ 54 \<le> 2 ^ k" by (intro power_increasing) simp_all
        moreover have "(of_int m :: real) < 2 ^ 53" using m by (metis abs_less_iff of_int_less_iff of_int_numeral of_int_power)
        ultimately have "of_int m / 2 ^ k < (2 ^ 53 :: real) / 2 ^ 54"
          using mp by (intro frac_less) simp_all
        then have "r < 2 ^ 53 / 2 ^ 54" using a by simp
        then have "r < 1 / 2" by simp
        moreover have "(1::real) / 2 \<le> 1 - 1 / 2 ^ 53" by simp
        ultimately show ?thesis by linarith
      qed
    qed
  qed
qed

lemma fl_draw_times_6:
  assumes fl: "rounds_to_nearest fl" and r: "is_double r" "0 \<le> r" "r < 1"
  shows "0 \<le> fl (r * 6)" "fl (r * 6) < 6"
proof -
  have z: "is_double 0" using is_double_int[of 0] by simp
  have b: "0 \<le> r * 6" "r * 6 \<le> 128" using r by simp_all
  show "0 \<le> fl (r * 6)" by (rule fl_ge[OF fl z b b(1)])
  define d :: real where "d = of_int (6 * 2 ^ 50 - 1) / 2 ^ 50"
  have dd: "is_double d" unfolding d_def by (rule is_double_frac) simp_all
  have dv: "d = 6 - 1 / 2 ^ 50" unfolding d_def by simp
  have x: "r * 6 \<le> 6 - 6 / 2 ^ 53" using double_below_1[OF r(1,3)] by simp
  show "fl (r * 6) < 6"
  proof (rule ccontr)
    assume "\<not> fl (r * 6) < 6"
    then have f: "6 \<le> fl (r * 6)" by simp
    define u :: real where "u = 1 / 2 ^ 53"
    have u: "0 < u" unfolding u_def by simp
    have du: "d = 6 - 8 * u" unfolding dv u_def by simp
    have xu: "r * 6 \<le> 6 - 6 * u" using x unfolding u_def by simp
    have "\<bar>fl (r * 6) - r * 6\<bar> \<le> \<bar>d - r * 6\<bar>" by (rule fl_nearest[OF fl dd b])
    with f u xu show False unfolding du by linarith
  qed
qed

lemma fl_accuracy:
  assumes fl: "rounds_to_nearest fl" and r: "0 \<le> r" "r < 1"
  shows "70 \<le> fl (70 + fl (r * 29))" "fl (70 + fl (r * 29)) \<le> 99"
proof -
  have d0: "is_double 0" and d29: "is_double 29" and d70: "is_double 70" and d99: "is_double 99"
    using is_double_int[of 0] is_double_int[of 29] is_double_int[of 70] is_double_int[of 99] by simp_all
  have p: "0 \<le> r * 29" "r * 29 \<le> 128" "r * 29 \<le> 29" using r by simp_all
  have a: "0 \<le> fl (r * 29)" by (rule fl_ge[OF fl d0 p(1,2) p(1)])
  have b: "fl (r * 29) \<le> 29" by (rule fl_le[OF fl d29 p])
  have q: "0 \<le> 70 + fl (r * 29)" "70 + fl (r * 29) \<le> 128" "70 \<le> 70 + fl (r * 29)"
    "70 + fl (r * 29) \<le> 99" using a b by simp_all
  show "70 \<le> fl (70 + fl (r * 29))" by (rule fl_ge[OF fl d70 q(1,2,3)])
  show "fl (70 + fl (r * 29)) \<le> 99" by (rule fl_le[OF fl d99 q(1,2,4)])
qed

lemma upt_6: "[0 ..< 6] = [0, 1, 2, 3, 4, 5]"
  by (simp add: upt_rec)

lemma unit_draws_nth:
  assumes "unit_draws rnd" "k < 6"
  shows "is_double (rnd k)" "0 \<le> rnd k" "rnd k < 1"
  using assms unfolding unit_draws_def list_all_iff by auto

subsection \<open>The draws of \<open>fakeDetection\<close>\<close>

lemma draw_range:
  assumes "rounds_to_nearest fl" "is_double r" "0 \<le> r" "r < 1"
  shows "0 \<le> \<lfloor>fl (r * 6)\<rfloor>" "\<lfloor>fl (r * 6)\<rfloor> \<le> 5"
  using fl_draw_times_6[OF assms] by (simp_all add: floor_le_iff)

lemma upt_4: "[0 ..< 4] = [0, Suc 0, Suc (Suc 0), Suc (Suc (Suc 0))]"
  by (simp add: upt_rec)

lemma fakeDetection_counts:
  "det_counts (fakeDetection fl fileName rnd) =
     (if \<lfloor>fl (rnd 0 * 6)\<rfloor> + \<lfloor>fl (rnd 1 * 6)\<rfloor> + \<lfloor>fl (rnd 2 * 6)\<rfloor> + \<lfloor>fl (rnd 3 * 6)\<rfloor> = 0
      then [1, \<lfloor>fl (rnd 1 * 6)\<rfloor>, \<lfloor>fl (rnd 2 * 6)\<rfloor>, \<lfloor>fl (rnd 3 * 6)\<rfloor>]
      else [\<lfloor>fl (rnd 0 * 6)\<rfloor>, \<lfloor>fl (rnd 1 * 6)\<rfloor>, \<lfloor>fl (rnd 2 * 6)\<rfloor>, \<lfloor>fl (rnd 3 * 6)\<rfloor>])"
  by (simp add: fakeDetection_def TYPES_def upt_4 Let_def numeral_2_eq_2 numeral_3_eq_3)

lemma accuracy_range:
  fixes x :: real
  assumes "70 \<le> x" "x \<le> 99"
  shows "70 \<le> real_of_int \<lfloor>x * 10 + 1 / 2\<rfloor> / 10"
    and "real_of_int \<lfloor>x * 10 + 1 / 2\<rfloor> / 10 \<le> 99"
proof -
  have "700 \<le> \<lfloor>x * 10 + 1 / 2\<rfloor>" using assms by (simp add: le_floor_iff)
  then show "70 \<le> real_of_int \<lfloor>x * 10 + 1 / 2\<rfloor> / 10" by simp
  have "\<lfloor>x * 10 + 1 / 2\<rfloor> \<le> 990" using assms by (simp add: floor_le_iff)
  then show "real_of_int \<lfloor>x * 10 + 1 / 2\<rfloor> / 10 \<le> 99" by simp
qed

text \<open>Where every intermediate result is a Number, rounding changes nothing.\<close>

lemma fakeDetection_exact:
  assumes fl: "rounds_to_nearest fl"
    and r: "list_all (\<lambda>k. 0 \<le> rnd k \<and> rnd k \<le> 1) [0 ..< 6]"
    and d: "is_double (rnd 0 * 6)" "is_double (rnd 1 * 6)" "is_double (rnd 2 * 6)" "is_double (rnd 3 * 6)"
      "is_double (rnd 4 * 4)" "is_double (rnd 5 * 29)" "is_double (70 + rnd 5 * 29)"
  shows "fakeDetection fl fileName rnd = fakeDetection (\<lambda>x. x) fileName rnd"
proof -
  from r have b: "k < 6 \<Longrightarrow> 0 \<le> rnd k \<and> rnd k \<le> 1" for k
    unfolding list_all_iff by simp
  have e: "fl (rnd (Suc 0) * 6) = rnd (Suc 0) * 6" "fl (rnd 0 * 6) = rnd 0 * 6"
    "fl (rnd (Suc (Suc 0)) * 6) = rnd (Suc (Suc 0)) * 6"
    "fl (rnd (Suc (Suc (Suc 0))) * 6) = rnd (Suc (Suc (Suc 0))) * 6"
    "fl (rnd 4 * 4) = rnd 4 * 4" "fl (rnd 5 * 29) = rnd 5 * 29"
    "fl (70 + rnd 5 * 29) = 70 + rnd 5 * 29"
    using d b[of 0] b[of 1] b[of 2] b[of 3] b[of 4] b[of 5]
    by (simp_all add: fl_exact[OF fl] numeral_2_eq_2 numeral_3_eq_3)
  show ?thesis
    by (simp add: fakeDetection_def TYPES_def SIZE_BUCKETS_def upt_4 Let_def e)
qed

subsection \<open>Reading a CSV document back\<close>

lemma csv_field_esc: "csv_field c = CHR 0x22 # esc (String_js c) @ [CHR 0x22]"
  by (simp add: csv_field_def esc_def)

lemma scan_esc:
  "csv_scan InQuoted fld row rows (esc s @ CHR 0x22 # rest) = csv_scan QuoteSeen (fld @ s) row rows rest"
  by (induction s arbitrary: fld) (simp_all add: esc_def)

lemma scan_field:
  "csv_scan FieldStart f0 row rows (csv_field c @ rest) = csv_scan QuoteSeen (String_js c) row rows rest"
  using scan_esc[of "[]" row rows "String_js c" rest] by (simp add: csv_field_esc)

lemma scan_row:
  "csv_scan FieldStart f0 row rows (join '','' (map csv_field (c # cs)) @ rest)
     = csv_scan QuoteSeen (String_js (last (c # cs))) (row @ map String_js (butlast (c # cs))) rows rest"
proof (induction cs arbitrary: c row f0)
  case Nil
  show ?case using scan_field[of f0 row rows c rest] by simp
next
  case (Cons d ds)
  have "csv_scan FieldStart f0 row rows (join '','' (map csv_field (c # d # ds)) @ rest)
      = csv_scan FieldStart f0 row rows (csv_field c @ (CHR '','' # join '','' (map csv_field (d # ds)) @ rest))"
    by simp
  also have "\<dots> = csv_scan QuoteSeen (String_js c) row rows (CHR '','' # join '','' (map csv_field (d # ds)) @ rest)"
    by (rule scan_field)
  also have "\<dots> = csv_scan FieldStart [] (row @ [String_js c]) rows (join '','' (map csv_field (d # ds)) @ rest)"
    by simp
  also have "\<dots> = csv_scan QuoteSeen (String_js (last (d # ds))) ((row @ [String_js c]) @ map String_js (butlast (d # ds))) rows rest"
    by (rule Cons.IH)
  finally show ?case by simp
qed

lemma scan_line:
  assumes "r \<noteq> []"
  shows "csv_scan FieldStart f0 [] rows (csv_line r @ rest)
     = csv_scan QuoteSeen (String_js (last r)) (map String_js (butlast r)) rows rest"
proof -
  from assms obtain c cs where r: "r = c # cs" by (cases r) auto
  show ?thesis unfolding r csv_line_def using scan_row[of f0 "[]" rows c cs rest] by simp
qed

lemma map_butlast_last: "r \<noteq> [] \<Longrightarrow> map f (butlast r) @ [f (last r)] = map f r"
  by (metis append_butlast_last_id list.simps(9) map_append list.map(1))

lemma scan_doc:
  assumes "r \<noteq> []" "\<forall>q \<in> set rs. q \<noteq> []"
  shows "csv_scan FieldStart f0 [] rows (join [CHR 0x0A] (map csv_line (r # rs)))
     = Some (rows @ map (map String_js) (r # rs))"
  using assms
proof (induction rs arbitrary: r rows f0)
  case Nil
  have "csv_scan FieldStart f0 [] rows (csv_line r @ []) = Some (rows @ [map String_js (butlast r) @ [String_js (last r)]])"
    unfolding scan_line[OF Nil.prems(1)] by simp
  then show ?case using map_butlast_last[OF Nil.prems(1), of String_js] by simp
next
  case (Cons q qs)
  have q: "q \<noteq> []" and qs: "\<forall>p \<in> set qs. p \<noteq> []" using Cons.prems(2) by auto
  have "csv_scan FieldStart f0 [] rows (join [CHR 0x0A] (map csv_line (r # q # qs)))
      = csv_scan FieldStart f0 [] rows (csv_line r @ (CHR 0x0A # join [CHR 0x0A] (map csv_line (q # qs))))"
    by simp
  also have "\<dots> = csv_scan QuoteSeen (String_js (last r)) (map String_js (butlast r)) rows
                      (CHR 0x0A # join [CHR 0x0A] (map csv_line (q # qs)))"
    by (rule scan_line[OF Cons.prems(1)])
  also have "\<dots> = csv_scan FieldStart [] [] (rows @ [map String_js r]) (join [CHR 0x0A] (map csv_line (q # qs)))"
    using map_butlast_last[OF Cons.prems(1), of String_js] by simp
  also have "\<dots> = Some ((rows @ [map String_js r]) @ map (map String_js) (q # qs))"
    by (rule Cons.IH[OF q qs])
  finally show ?case by simp
qed

subsection \<open>The dominant type\<close>

lemma domTypeIndex_argmax:
  assumes "counts \<noteq> []"
  shows "0 \<le> domTypeIndex counts \<and> domTypeIndex counts < int (length counts) \<and>
         counts ! nat (domTypeIndex counts) = Max (set counts) \<and>
         (\<forall>j < nat (domTypeIndex counts). counts ! j < Max (set counts))"
proof -
  define m where "m = Max (set counts)"
  have mm: "Math_max counts = Some m" unfolding m_def by (rule Math_max_Max[OF assms])
  have "m \<in> set counts" unfolding m_def using assms by (simp add: Max_in)
  from indexOf_from_in[OF this, of 0]
  have a: "0 \<le> domTypeIndex counts" and b: "domTypeIndex counts < int (length counts)"
    and c: "counts ! nat (domTypeIndex counts) = m"
    and d: "\<forall>j < nat (domTypeIndex counts). counts ! j \<noteq> m"
    unfolding domTypeIndex_def indexOf_def mm by simp_all
  have "\<forall>j < nat (domTypeIndex counts). counts ! j < m"
  proof (intro allI impI)
    fix j assume j: "j < nat (domTypeIndex counts)"
    with b have "j < length counts" by linarith
    then have "counts ! j \<le> m" unfolding m_def by (simp add: Max_ge)
    with d j show "counts ! j < m" by (simp add: order_less_le)
  qed
  with a b c show ?thesis unfolding m_def by blast
qed

lemma domTypeIndex_Nil: "domTypeIndex [] = - 1"
  by (simp add: domTypeIndex_def indexOf_def)

lemma TYPES_index:
  assumes "0 \<le> i" "i < 4"
  shows "js_index TYPES i = Some (TYPES ! nat i)" "TYPES ! nat i \<noteq> []" "TYPES ! nat i \<noteq> ''Unknown''"
proof -
  show "js_index TYPES i = Some (TYPES ! nat i)" using assms by (simp add: js_index_def TYPES_def)
  from assms have "nat i < 4" by linarith
  then have "nat i = 0 \<or> nat i = 1 \<or> nat i = 2 \<or> nat i = 3" by linarith
  then show "TYPES ! nat i \<noteq> []" "TYPES ! nat i \<noteq> ''Unknown''"
    by (auto simp: TYPES_def)
qed

lemma TYPES_outside: "i < 0 \<or> 4 \<le> i \<Longrightarrow> js_index TYPES i = None"
  by (auto simp: js_index_def TYPES_def)

lemma history_row_domType:
  "row_domType (history_row img) = or_Unknown (js_index TYPES (domTypeIndex (img_counts img)))"
  by (simp add: history_row_def domTypeIndex_def Let_def)

lemma csv_row_domType:
  "csv_row img ! 1 = cell_of (js_index TYPES (domTypeIndex (img_counts img)))"
  by (simp add: csv_row_def domTypeIndex_def Let_def)

lemma print_row_domType:
  "row_domType (print_row img) = String_js (cell_of (js_index TYPES (domTypeIndex (img_counts img))))"
  by (simp add: print_row_def domTypeIndex_def Let_def)

lemma image_card_domType:
  "card_domType (image_card src short det) = String_js (cell_of (js_index TYPES (domTypeIndex (det_counts det))))"
  by (simp add: image_card_def domTypeIndex_def)

lemma all_zero_index:
  assumes "counts \<noteq> []" "\<forall>c \<in> set counts. c = 0"
  shows "domTypeIndex counts = 0"
proof -
  from assms obtain x xs where c: "counts = x # xs" by (cases counts) auto
  with assms have x: "x = 0" by simp
  have "Max (set counts) \<in> set counts" using assms(1) by (simp add: Max_in)
  with assms(2) have "Max (set counts) = 0" by blast
  then have "Math_max counts = Some 0" using Math_max_Max[OF assms(1)] by simp
  then show ?thesis unfolding domTypeIndex_def indexOf_def unfolding c x by simp
qed

subsection \<open>The views of the page along a run\<close>

lemma reader_onload_allImages [simp]:
  "allImages (reader_onload fl fileName src rnd s) = allImages s @ [imgObj_of fl fileName rnd]"
  by (simp add: reader_onload_def addHistoryRow_def imgObj_of_def Let_def)

lemma reader_onload_imageGrid [simp]:
  "imageGrid (reader_onload fl fileName src rnd s)
     = image_card src (shortName fileName) (fakeDetection fl fileName rnd) # imageGrid s"
  by (simp add: reader_onload_def addHistoryRow_def Let_def)

lemma reader_onload_historyTableBody [simp]:
  "historyTableBody (reader_onload fl fileName src rnd s)
     = historyTableBody s @ [history_row (imgObj_of fl fileName rnd)]"
  by (simp add: reader_onload_def addHistoryRow_def imgObj_of_def Let_def)

lemma reader_onload_comp_datasets [simp]:
  "comp_datasets (reader_onload fl fileName src rnd s) = comp_datasets s"
  by (simp add: reader_onload_def addHistoryRow_def Let_def)

lemma card_of_imgObj:
  "card_of_image src (imgObj_of fl fileName rnd) = image_card src (shortName fileName) (fakeDetection fl fileName rnd)"
  by (simp add: card_of_image_def imgObj_of_def Let_def image_card_def)

lemma updateCharts_views [simp]:
  "allImages (updateCharts Number s) = allImages s"
  "imageGrid (updateCharts Number s) = imageGrid s"
  "historyTableBody (updateCharts Number s) = historyTableBody s"
  by (simp_all add: updateCharts_def Let_def)

lemma downloadCSV_views [simp]:
  "allImages (downloadCSV s) = allImages s"
  "imageGrid (downloadCSV s) = imageGrid s"
  "historyTableBody (downloadCSV s) = historyTableBody s"
  "comp_datasets (downloadCSV s) = comp_datasets s"
  by (simp_all add: downloadCSV_def)

lemma printReport_views [simp]:
  "allImages (printReport popup now s) = allImages s"
  "imageGrid (printReport popup now s) = imageGrid s"
  "historyTableBody (printReport popup now s) = historyTableBody s"
  "comp_datasets (printReport popup now s) = comp_datasets s"
  by (simp_all add: printReport_def Let_def)

lemma run_task_views [simp]:
  "allImages (run_task Number t s) = allImages s"
  "imageGrid (run_task Number t s) = imageGrid s"
  "historyTableBody (run_task Number t s) = historyTableBody s"
  by (cases t; simp)+

lemma updateCharts_labels [simp]:
  "map ds_label (comp_datasets (updateCharts Number s)) = map ds_label (comp_datasets s)"
proof -
  have "map ds_label (comp_datasets (updateCharts Number s))
      = map (ds_label \<circ> snd) (enumerate 0 (comp_datasets s))"
    by (simp add: updateCharts_def Let_def case_prod_beta comp_def)
  also have "\<dots> = map ds_label (map snd (enumerate 0 (comp_datasets s)))"
    by (simp only: map_map)
  also have "\<dots> = map ds_label (comp_datasets s)"
    by (simp only: map_snd_enumerate)
  finally show ?thesis .
qed

lemma run_task_labels [simp]:
  "map ds_label (comp_datasets (run_task Number t s)) = map ds_label (comp_datasets s)"
  by (cases t) simp_all

lemma step_allImages:
  "allImages (step fl Number e s) = allImages s @ map (\<lambda>(f, src, rnd). imgObj_of fl f rnd) (loads [e])"
  by (cases e) simp_all

lemma step_imageGrid:
  "imageGrid (step fl Number e s)
     = rev (map (\<lambda>(f, src, rnd). image_card src (shortName f) (fakeDetection fl f rnd)) (loads [e])) @ imageGrid s"
  by (cases e) simp_all

lemma step_historyTableBody:
  "historyTableBody (step fl Number e s)
     = historyTableBody s @ map (\<lambda>(f, src, rnd). history_row (imgObj_of fl f rnd)) (loads [e])"
  by (cases e) simp_all

lemma step_labels:
  "map ds_label (comp_datasets (step fl Number e s)) = map ds_label (comp_datasets s)"
  by (cases e) simp_all

lemma loads_Cons: "loads (e # es) = loads [e] @ loads es"
  by (cases e) simp_all

lemma run_Cons: "run fl Number (e # es) s = run fl Number es (step fl Number e s)"
  by (simp add: run_def)

lemma run_allImages:
  "allImages (run fl Number es s) = allImages s @ map (\<lambda>(f, src, rnd). imgObj_of fl f rnd) (loads es)"
proof (induction es arbitrary: s)
  case Nil
  show ?case by (simp add: run_def)
next
  case (Cons e es)
  show ?case unfolding run_Cons Cons.IH step_allImages loads_Cons[of e es] by simp
qed

lemma run_imageGrid:
  "imageGrid (run fl Number es s)
     = rev (map (\<lambda>(f, src, rnd). image_card src (shortName f) (fakeDetection fl f rnd)) (loads es)) @ imageGrid s"
proof (induction es arbitrary: s)
  case Nil
  show ?case by (simp add: run_def)
next
  case (Cons e es)
  show ?case unfolding run_Cons Cons.IH step_imageGrid loads_Cons[of e es] by simp
qed

lemma run_historyTableBody:
  "historyTableBody (run fl Number es s)
     = historyTableBody s @ map (\<lambda>(f, src, rnd). history_row (imgObj_of fl f rnd)) (loads es)"
proof (induction es arbitrary: s)
  case Nil
  show ?case by (simp add: run_def)
next
  case (Cons e es)
  show ?case unfolding run_Cons Cons.IH step_historyTableBody loads_Cons[of e es] by simp
qed

lemma run_labels:
  "map ds_label (comp_datasets (run fl Number es s)) = map ds_label (comp_datasets s)"
proof (induction es arbitrary: s)
  case Nil
  show ?case by (simp add: run_def)
next
  case (Cons e es)
  show ?case unfolding run_Cons Cons.IH step_labels ..
qed

lemma init_page_fields [simp]:
  "allImages init_page = []" "imageGrid init_page = []" "historyTableBody init_page = []"
  "alerts init_page = []" "downloads init_page = []" "windows init_page = []" "timers init_page = []"
  by (simp_all add: init_page_def)

lemma init_page_labels: "map ds_label (comp_datasets init_page) = TYPES"
  by (simp add: init_page_def TYPES_def enumerate_eq_zip upt_4 numeral_2_eq_2[symmetric] numeral_3_eq_3[symmetric])

lemma imgObj_of_counts_length: "length (img_counts (imgObj_of fl fileName rnd)) = 4"
  by (simp add: imgObj_of_def Let_def fakeDetection_counts)

lemma reachable_counts:
  "\<forall>img \<in> set (allImages (run fl Number es init_page)). length (img_counts img) = 4"
  unfolding run_allImages by (auto simp: imgObj_of_counts_length)

lemma reachable_labels: "map ds_label (comp_datasets (run fl Number es init_page)) = TYPES"
  unfolding run_labels by (rule init_page_labels)

lemma updateCharts_series:
  "comp_labels (updateCharts Number s) = map img_shortName (allImages s)"
  "acc_labels (updateCharts Number s) = map img_shortName (allImages s)"
  "acc_data (updateCharts Number s) = map (\<lambda>img. Number (img_accuracy img)) (allImages s)"
  by (simp_all add: updateCharts_def Let_def)

lemma updateCharts_data:
  "map ds_data (comp_datasets (updateCharts Number s))
     = map (\<lambda>t. map (\<lambda>img. js_index (img_counts img) (int t)) (allImages s)) [0 ..< length (comp_datasets s)]"
proof -
  let ?f = "\<lambda>t. map (\<lambda>img. js_index (img_counts img) (int t)) (allImages s)"
  have "map ds_data (comp_datasets (updateCharts Number s))
      = map (?f \<circ> fst) (enumerate 0 (comp_datasets s))"
    by (simp add: updateCharts_def Let_def case_prod_beta comp_def)
  also have "\<dots> = map ?f (map fst (enumerate 0 (comp_datasets s)))"
    by (simp only: map_map)
  also have "\<dots> = map ?f [0 ..< length (comp_datasets s)]"
    by (simp only: map_fst_enumerate add_0)
  finally show ?thesis .
qed

lemma updateCharts_length: "length (comp_datasets (updateCharts Number s)) = length (comp_datasets s)"
  by (simp add: updateCharts_def Let_def)

lemma updateCharts_data_nth:
  assumes "t < length (comp_datasets s)"
  shows "ds_data (comp_datasets (updateCharts Number s) ! t)
     = map (\<lambda>img. js_index (img_counts img) (int t)) (allImages s)"
proof -
  have "ds_data (comp_datasets (updateCharts Number s) ! t)
      = map ds_data (comp_datasets (updateCharts Number s)) ! t"
    using assms by (simp add: updateCharts_length)
  also have "\<dots> = map (\<lambda>img. js_index (img_counts img) (int t)) (allImages s)"
    unfolding updateCharts_data using assms by simp
  finally show ?thesis .
qed

lemma reachable_length: "length (comp_datasets (run fl Number es init_page)) = 4"
  using arg_cong[OF reachable_labels[of fl Number es], of length] by (simp add: TYPES_def)

lemma reader_onload_log [simp]:
  "alerts (reader_onload fl fileName src rnd s) = alerts s"
  "downloads (reader_onload fl fileName src rnd s) = downloads s"
  "windows (reader_onload fl fileName src rnd s) = windows s"
  "timers (reader_onload fl fileName src rnd s) = timers s @ [(100, UpdateCharts)]"
  by (simp_all add: reader_onload_def addHistoryRow_def Let_def)

lemma sample_page_unfold:
  "sample_page =
     reader_onload nearest_double ''a_rather_long_file_name.png'' ''data:2'' (\<lambda>k. 0)
       (reader_onload nearest_double ''My\"File.png'' ''data:1''
          (draws_of [1 / 2, 7 / 8, 7 / 8, 1 / 8, 1 / 4, 1 / 2]) init_page)"
  by (simp add: sample_page_def sample_events_def run_def)

lemma sample_page_allImages:
  "allImages sample_page =
     [\<lparr>img_name = ''My\"File.png'', img_shortName = ''My\"File.png'', img_counts = [3, 5, 5, 0],
       img_size = Some (''10-50 '' @ [CHR 0xB5] @ ''m''), img_accuracy = ''84.5''\<rparr>,
      \<lparr>img_name = ''a_rather_long_file_name.png'', img_shortName = ''a_rather_long_f...'',
       img_counts = [1, 0, 0, 0], img_size = Some (''<10 '' @ [CHR 0xB5] @ ''m''),
       img_accuracy = ''70.0''\<rparr>]"
proof -
  note nd = nearest_double_rounds
  have d: "is_double 0" "is_double 1" "is_double 3" "is_double 70"
    using is_double_int[of 0] is_double_int[of 1] is_double_int[of 3] is_double_int[of 70] by simp_all
  have f: "is_double (21 / 4)" "is_double (3 / 4)" "is_double (29 / 2)" "is_double (169 / 2)"
    using is_double_frac[of 21 2] is_double_frac[of 3 2] is_double_frac[of 29 1] is_double_frac[of 169 1]
    by simp_all
  have a: "fakeDetection nearest_double ''My\"File.png'' (draws_of [1 / 2, 7 / 8, 7 / 8, 1 / 8, 1 / 4, 1 / 2])
      = fakeDetection (\<lambda>x. x) ''My\"File.png'' (draws_of [1 / 2, 7 / 8, 7 / 8, 1 / 8, 1 / 4, 1 / 2])"
    by (rule fakeDetection_exact[OF nd]) (simp_all add: draws_of_def d f upt_6)
  have b: "fakeDetection nearest_double ''a_rather_long_file_name.png'' (\<lambda>k. 0)
      = fakeDetection (\<lambda>x. x) ''a_rather_long_file_name.png'' (\<lambda>k. 0)"
    by (rule fakeDetection_exact[OF nd]) (simp_all add: d list_all_iff)
  have a': "imgObj_of (\<lambda>x. x) ''My\"File.png'' (draws_of [1 / 2, 7 / 8, 7 / 8, 1 / 8, 1 / 4, 1 / 2])
      = \<lparr>img_name = ''My\"File.png'', img_shortName = ''My\"File.png'', img_counts = [3, 5, 5, 0],
       img_size = Some (''10-50 '' @ [CHR 0xB5] @ ''m''), img_accuracy = ''84.5''\<rparr>"
    by code_simp
  have b': "imgObj_of (\<lambda>x. x) ''a_rather_long_file_name.png'' (\<lambda>k. 0)
      = \<lparr>img_name = ''a_rather_long_file_name.png'', img_shortName = ''a_rather_long_f...'',
       img_counts = [1, 0, 0, 0], img_size = Some (''<10 '' @ [CHR 0xB5] @ ''m''),
       img_accuracy = ''70.0''\<rparr>"
    by code_simp
  show ?thesis
    unfolding sample_page_unfold reader_onload_allImages imgObj_of_def a b
    unfolding imgObj_of_def[symmetric] a' b' by simp
qed

lemma card_heading_of_image: "card_heading (card_of_image src img) = img_shortName img"
  by (simp add: card_of_image_def image_card_def)

lemma zip_loads_map:
  "map (\<lambda>((f, src, rnd), img). card_of_image src img)
       (zip ls (map (\<lambda>(f, src, rnd). imgObj_of fl f rnd) ls))
     = map (\<lambda>(f, src, rnd). image_card src (shortName f) (fakeDetection fl f rnd)) ls"
  by (induction ls) (auto simp: card_of_imgObj)

lemma labels_agree:
  assumes len: "length (img_counts img) = 4" and det: "det_counts det = img_counts img"
  shows "0 \<le> domTypeIndex (img_counts img) \<and> domTypeIndex (img_counts img) < 4 \<and>
      row_domType (history_row img) = TYPES ! nat (domTypeIndex (img_counts img)) \<and>
      card_domType (image_card src short det) = TYPES ! nat (domTypeIndex (img_counts img)) \<and>
      String_js (csv_row img ! 1) = TYPES ! nat (domTypeIndex (img_counts img)) \<and>
      row_domType (print_row img) = TYPES ! nat (domTypeIndex (img_counts img)) \<and>
      row_domType (history_row img) \<noteq> ''Unknown''"
proof -
  from len have ne: "img_counts img \<noteq> []" by auto
  from domTypeIndex_argmax[OF ne] len
  have i: "0 \<le> domTypeIndex (img_counts img)" "domTypeIndex (img_counts img) < 4" by simp_all
  note t = TYPES_index[OF i]
  show ?thesis
    unfolding history_row_domType csv_row_domType print_row_domType image_card_domType det
    using i t by (simp add: or_Unknown_def cell_of_def)
qed

subsection \<open>The CSV document\<close>

lemma csvContent_lines:
  "csvContent imgs = join [CHR 0x0A] (map csv_line (csv_header # map csv_row imgs))"
proof -
  have "csv_line = (\<lambda>r. join '','' (map csv_field r))" by (rule ext) (simp add: csv_line_def)
  then show ?thesis by (simp add: csvContent_def Let_def)
qed

lemma csv_header_strings:
  "map String_js csv_header
     = [''Image'', ''DominantType'', ''Size'', ''Accuracy'', ''Fiber'', ''Fragment'', ''Pellet'', ''Microbead'']"
  by (simp add: csv_header_def TYPES_def)

lemma length_4_cases:
  assumes "length xs = 4"
  obtains a b c d where "xs = [a, b, c, d]"
proof -
  from assms have "length xs = Suc (Suc (Suc (Suc 0)))" by simp
  then show thesis using that by (auto simp: length_Suc_conv)
qed

lemma csv_row_strings:
  assumes "length (img_counts img) = 4"
  shows "map String_js (csv_row img)
     = [img_name img, TYPES ! nat (domTypeIndex (img_counts img)), String_js (cell_of (img_size img)),
        img_accuracy img @ ''%'', String_int (img_counts img ! 0), String_int (img_counts img ! 1),
        String_int (img_counts img ! 2), String_int (img_counts img ! 3)]"
proof -
  from assms have ne: "img_counts img \<noteq> []" by auto
  from domTypeIndex_argmax[OF ne] assms
  have i: "0 \<le> domTypeIndex (img_counts img)" "domTypeIndex (img_counts img) < 4" by simp_all
  from assms obtain a b c d where cs: "img_counts img = [a, b, c, d]"
    by (rule length_4_cases)
  have dom: "cell_of (js_index TYPES (indexOf (img_counts img) (Math_max (img_counts img))))
               = CStr (TYPES ! nat (domTypeIndex (img_counts img)))"
    using TYPES_index(1)[OF i] by (simp add: domTypeIndex_def cell_of_def)
  show ?thesis
    unfolding csv_row_def Let_def dom by (simp add: cs)
qed

lemma csv_row_nonempty: "csv_row img \<noteq> []"
  by (simp add: csv_row_def Let_def)

lemma csv_read_content:
  "csv_read (csvContent imgs) = Some (map String_js csv_header # map (\<lambda>img. map String_js (csv_row img)) imgs)"
proof -
  have h: "csv_header \<noteq> []" by (simp add: csv_header_def)
  have r: "\<forall>q \<in> set (map csv_row imgs). q \<noteq> []" by (simp add: csv_row_nonempty)
  show ?thesis
    unfolding csv_read_def csvContent_lines scan_doc[OF h r] by (simp add: comp_def)
qed

subsection \<open>What the exports write, and the deferred chart update\<close>

lemma printReport_writes:
  assumes "allImages s \<noteq> []"
  shows "windows (printReport True now s) = windows s @
           [\<lparr>pw_written = [\<lparr>rep_generated = now, rep_rows = map print_row (allImages s)\<rparr>], pw_prints = 0\<rparr>]"
    and "timers (printReport True now s) = timers s @ [(400, PrintWindow (length (windows s)))]"
  using assms by (simp_all add: printReport_def Let_def)

lemma downloadCSV_offers:
  assumes "allImages s \<noteq> []"
  shows "downloads (downloadCSV s) = downloads s @
           [\<lparr>dl_filename = ''microplastics_history.csv'', dl_type = ''text/csv;charset=utf-8;'',
             dl_content = csvContent (allImages s)\<rparr>]"
  using assms by (simp add: downloadCSV_def)

lemma addHistoryRow_appends:
  "historyTableBody (addHistoryRow img s) = historyTableBody s @ [history_row img]"
  by (simp add: addHistoryRow_def)

lemma series_updateCharts:
  assumes "length (comp_datasets s) = 4"
  shows "series (updateCharts Number s) = chart_projection Number (allImages s)"
  unfolding series_def chart_projection_def updateCharts_series updateCharts_data assms ..

lemma series_length: "series s = chart_projection Number imgs \<Longrightarrow> length (comp_datasets s) = 4"
proof -
  assume "series s = chart_projection Number imgs"
  then have "map ds_data (comp_datasets s) = map (\<lambda>t. map (\<lambda>img. js_index (img_counts img) (int t)) imgs) [0 ..< 4]"
    by (simp add: series_def chart_projection_def)
  from arg_cong[OF this, of length] show ?thesis by simp
qed

lemma series_unchanged [simp]:
  "series (reader_onload fl fileName src rnd s) = series s"
  "series (downloadCSV s) = series s"
  "series (printReport popup now s) = series s"
  "series (s\<lparr>timers := ts\<rparr>) = series s"
  "series (s\<lparr>windows := ws\<rparr>) = series s"
  by (simp_all add: series_def reader_onload_def addHistoryRow_def downloadCSV_def printReport_def Let_def)

lemma timers_other [simp]:
  "timers (downloadCSV s) = timers s"
  "timers (updateCharts Number s) = timers s"
  by (simp_all add: downloadCSV_def updateCharts_def Let_def)

lemma step_Timeout_UpdateCharts:
  assumes "k < length (timers s)" "snd (timers s ! k) = UpdateCharts"
  shows "step fl Number (Timeout k) s
           = updateCharts Number (s\<lparr>timers := take k (timers s) @ drop (Suc k) (timers s)\<rparr>)"
  using assms by simp

lemma fired_chart_timer:
  assumes "k < length (timers s)" "snd (timers s ! k) = UpdateCharts" "length (comp_datasets s) = 4"
  shows "series (step fl Number (Timeout k) s) = chart_projection Number (allImages s)"
    and "allImages (step fl Number (Timeout k) s) = allImages s"
    and "timers (step fl Number (Timeout k) s) = take k (timers s) @ drop (Suc k) (timers s)"
proof -
  let ?s = "s\<lparr>timers := take k (timers s) @ drop (Suc k) (timers s)\<rparr>"
  have l: "length (comp_datasets ?s) = 4" using assms(3) by simp
  show "series (step fl Number (Timeout k) s) = chart_projection Number (allImages s)"
    unfolding step_Timeout_UpdateCharts[OF assms(1,2)] series_updateCharts[OF l] by simp
  show "allImages (step fl Number (Timeout k) s) = allImages s"
    unfolding step_Timeout_UpdateCharts[OF assms(1,2)] by simp
  show "timers (step fl Number (Timeout k) s) = take k (timers s) @ drop (Suc k) (timers s)"
    unfolding step_Timeout_UpdateCharts[OF assms(1,2)] by simp
qed

lemma charts_lag_init: "charts_lag Number init_page"
proof -
  have "series (init_page :: 'a page) = chart_projection Number []"
    by (simp add: series_def chart_projection_def init_page_def TYPES_def enumerate_eq_zip upt_4
          numeral_2_eq_2[symmetric] numeral_3_eq_3[symmetric])
  then show ?thesis unfolding charts_lag_def by (intro exI[of _ 0]) simp
qed

lemma pending_after_removal:
  assumes "k < length ts" "snd (ts ! k) \<noteq> UpdateCharts" "UpdateCharts \<in> snd ` set ts"
  shows "UpdateCharts \<in> snd ` set (take k ts @ drop (Suc k) ts)"
proof -
  have "ts = take k ts @ ts ! k # drop (Suc k) ts" by (rule id_take_nth_drop[OF assms(1)])
  then have "set ts = set (take k ts @ drop (Suc k) ts) \<union> {ts ! k}"
    by (metis Un_insert_right list.simps(15) set_append sup_bot.right_neutral Un_commute)
  with assms(2,3) show ?thesis by auto
qed

lemma charts_lag_step:
  assumes "charts_lag Number s"
  shows "charts_lag Number (step fl Number e s)"
proof -
  from assms obtain m where m: "m \<le> length (allImages s)"
    and ser: "series s = chart_projection Number (take m (allImages s))"
    and pend: "m = length (allImages s) \<or> UpdateCharts \<in> snd ` set (timers s)"
    unfolding charts_lag_def by blast
  have four: "length (comp_datasets s) = 4" by (rule series_length[OF ser])
  show ?thesis
  proof (cases e)
    case (Onload fileName src rnd)
    show ?thesis unfolding Onload charts_lag_def
      by (rule exI[of _ m]) (use m ser in simp)
  next
    case (Timeout k)
    show ?thesis
    proof (cases "k < length (timers s)")
      case False
      then show ?thesis unfolding Timeout using assms by simp
    next
      case True
      show ?thesis
      proof (cases "snd (timers s ! k)")
        case UpdateCharts
        note f = fired_chart_timer[OF True UpdateCharts four, of fl Number]
        show ?thesis unfolding Timeout charts_lag_def
          by (rule exI[of _ "length (allImages s)"]) (simp add: f del: step.simps)
      next
        case (PrintWindow w)
        have ne: "snd (timers s ! k) \<noteq> UpdateCharts" using PrintWindow by simp
        have p: "m = length (allImages s) \<or>
                 UpdateCharts \<in> snd ` set (take k (timers s) @ drop (Suc k) (timers s))"
          using pend pending_after_removal[OF True ne] by blast
        show ?thesis unfolding Timeout charts_lag_def
          by (rule exI[of _ m]) (use True PrintWindow m ser p in simp)
      qed
    qed
  next
    case ClickDownloadCsv
    show ?thesis unfolding ClickDownloadCsv charts_lag_def
      by (rule exI[of _ m]) (use m ser pend in simp)
  next
    case (ClickPrintReport popup now)
    have "timers (printReport popup now s) = timers s \<or>
          (\<exists>x. timers (printReport popup now s) = timers s @ [x])"
      by (simp add: printReport_def Let_def)
    then have p: "m = length (allImages s) \<or> UpdateCharts \<in> snd ` set (timers (printReport popup now s))"
      using pend by auto
    show ?thesis unfolding ClickPrintReport charts_lag_def
      by (rule exI[of _ m]) (use m ser p in simp)
  qed
qed

lemma charts_lag_run: "charts_lag Number s \<Longrightarrow> charts_lag Number (run fl Number es s)"
proof (induction es arbitrary: s)
  case Nil
  then show ?case by (simp add: run_def)
next
  case (Cons e es)
  show ?case unfolding run_Cons by (rule Cons.IH[OF charts_lag_step[OF Cons.prems]])
qed

lemma reachable_charts_lag: "charts_lag Number (run fl Number es init_page)"
  by (rule charts_lag_run[OF charts_lag_init])

lemma timers_sample_page: "timers sample_page = [(100, UpdateCharts), (100, UpdateCharts)]"
  and windows_sample_page: "windows sample_page = []"
  unfolding sample_page_unfold by simp_all

lemma last_export_row:
  assumes "imgs \<noteq> []"
  shows "last (h # map f imgs) = f (last imgs)"
  using assms by (simp add: last_map)

section \<open>The detection simulator\<close>

text \<open>
  Claim C1. With Number arithmetic rounding to nearest, whatever Numbers in \<open>[0, 1)\<close>
  \<open>Math.random\<close> returns, the counts of \<open>fakeDetection\<close> are exactly four integers, each
  between 0 and 5; when the four drawn values are all 0 the first count is set to 1 and
  otherwise the counts are the drawn values; so the counts sum to at least 1.
\<close>

theorem fakeDetection_counts_nonempty:
  assumes "rounds_to_nearest fl" and "unit_draws rnd"
  shows "length (det_counts (fakeDetection fl fileName rnd)) = 4 \<and>
         (\<forall>c \<in> set (det_counts (fakeDetection fl fileName rnd)). 0 \<le> c \<and> c \<le> 5) \<and>
         det_counts (fakeDetection fl fileName rnd) =
           (if [\<lfloor>fl (rnd 0 * 6)\<rfloor>, \<lfloor>fl (rnd 1 * 6)\<rfloor>, \<lfloor>fl (rnd 2 * 6)\<rfloor>, \<lfloor>fl (rnd 3 * 6)\<rfloor>] = [0, 0, 0, 0]
            then [1, 0, 0, 0]
            else [\<lfloor>fl (rnd 0 * 6)\<rfloor>, \<lfloor>fl (rnd 1 * 6)\<rfloor>, \<lfloor>fl (rnd 2 * 6)\<rfloor>, \<lfloor>fl (rnd 3 * 6)\<rfloor>]) \<and>
         1 \<le> sum_list (det_counts (fakeDetection fl fileName rnd))"
proof -
  define c0 c1 c2 c3 where "c0 = \<lfloor>fl (rnd 0 * 6)\<rfloor>" and "c1 = \<lfloor>fl (rnd 1 * 6)\<rfloor>"
    and "c2 = \<lfloor>fl (rnd 2 * 6)\<rfloor>" and "c3 = \<lfloor>fl (rnd 3 * 6)\<rfloor>"
  have d: "k < 4 \<Longrightarrow> 0 \<le> \<lfloor>fl (rnd k * 6)\<rfloor> \<and> \<lfloor>fl (rnd k * 6)\<rfloor> \<le> 5" for k
    using draw_range[OF assms(1) unit_draws_nth[OF assms(2), of k]] by simp
  have r: "0 \<le> c0" "c0 \<le> 5" "0 \<le> c1" "c1 \<le> 5" "0 \<le> c2" "c2 \<le> 5" "0 \<le> c3" "c3 \<le> 5"
    unfolding c0_def c1_def c2_def c3_def using d[of 0] d[of 1] d[of 2] d[of 3] by simp_all
  have cnt: "det_counts (fakeDetection fl fileName rnd) =
      (if c0 + c1 + c2 + c3 = 0 then [1, c1, c2, c3] else [c0, c1, c2, c3])"
    unfolding c0_def c1_def c2_def c3_def by (rule fakeDetection_counts)
  show ?thesis
    unfolding cnt c0_def[symmetric] c1_def[symmetric] c2_def[symmetric] c3_def[symmetric]
    using r by auto
qed

text \<open>The draws \<open>0, 0, 0, 0\<close>: the first count is forced to 1.\<close>

theorem fakeDetection_counts_nonempty_witness:
  "rounds_to_nearest nearest_double \<and> unit_draws (\<lambda>k. 0) \<and>
   det_counts (fakeDetection nearest_double ''a.png'' (\<lambda>k. 0)) = [1, 0, 0, 0] \<and>
   length (det_counts (fakeDetection nearest_double ''a.png'' (\<lambda>k. 0))) = 4 \<and>
   1 \<le> sum_list (det_counts (fakeDetection nearest_double ''a.png'' (\<lambda>k. 0)))"
proof -
  note h1 = nearest_double_rounds
  have z: "is_double 0" using is_double_int[of 0] by simp
  have h2: "unit_draws (\<lambda>k. 0)" by (simp add: unit_draws_def z list_all_iff)
  have e: "nearest_double 0 = 0" by (rule fl_exact[OF h1 z]) simp_all
  from fakeDetection_counts_nonempty[OF h1 h2, where fileName = "''a.png''"] h1 h2 show ?thesis by (simp add: e)
qed

text \<open>
  Claim C6. With Number arithmetic rounding to nearest, whatever Numbers in \<open>[0, 1)\<close>
  \<open>Math.random\<close> returns, the Number \<open>70 + 29 r\<close> lies between 70 and 99, and the accuracy
  of \<open>fakeDetection\<close> is a string of four characters that reads as a fixed-point numeral
  with exactly one digit after the point and nothing else (no percent sign); its value is
  that Number rounded to one decimal place and lies between 70.0 and 99.0.
\<close>

theorem fakeDetection_accuracy_fixed1:
  assumes "rounds_to_nearest fl" and "unit_draws rnd"
  shows "70 \<le> fl (70 + fl (rnd 5 * 29)) \<and> fl (70 + fl (rnd 5 * 29)) \<le> 99 \<and>
         fixed1_value (det_accuracy (fakeDetection fl fileName rnd))
           = Some (real_of_int \<lfloor>fl (70 + fl (rnd 5 * 29)) * 10 + 1 / 2\<rfloor> / 10) \<and>
         70 \<le> real_of_int \<lfloor>fl (70 + fl (rnd 5 * 29)) * 10 + 1 / 2\<rfloor> / 10 \<and>
         real_of_int \<lfloor>fl (70 + fl (rnd 5 * 29)) * 10 + 1 / 2\<rfloor> / 10 \<le> 99 \<and>
         \<bar>real_of_int \<lfloor>fl (70 + fl (rnd 5 * 29)) * 10 + 1 / 2\<rfloor> / 10 - fl (70 + fl (rnd 5 * 29))\<bar> \<le> 1 / 20 \<and>
         length (det_accuracy (fakeDetection fl fileName rnd)) = 4 \<and>
         CHR ''%'' \<notin> set (det_accuracy (fakeDetection fl fileName rnd))"
proof -
  define x where "x = fl (70 + fl (rnd 5 * 29))"
  define n where "n = nat \<lfloor>x * 10 + 1 / 2\<rfloor>"
  have r: "0 \<le> rnd 5" "rnd 5 < 1" using unit_draws_nth(2,3)[OF assms(2), of 5] by simp_all
  have x: "70 \<le> x" "x \<le> 99" unfolding x_def by (rule fl_accuracy[OF assms(1) r])+
  then have x0: "0 \<le> x" by simp
  have acc: "det_accuracy (fakeDetection fl fileName rnd) = toFixed1 x"
    by (simp add: fakeDetection_def Let_def x_def)
  have lo: "700 \<le> \<lfloor>x * 10 + 1 / 2\<rfloor>" using x by (simp add: le_floor_iff)
  have hi: "\<lfloor>x * 10 + 1 / 2\<rfloor> \<le> 990" using x by (simp add: floor_le_iff)
  have n: "700 \<le> n" "n \<le> 990" using lo hi unfolding n_def by linarith+
  have val: "fixed1_value (toFixed1 x) = Some (real_of_int \<lfloor>x * 10 + 1 / 2\<rfloor> / 10)"
    by (rule fixed1_value_toFixed1[OF x0])
  have rng: "70 \<le> real_of_int \<lfloor>x * 10 + 1 / 2\<rfloor> / 10" "real_of_int \<lfloor>x * 10 + 1 / 2\<rfloor> / 10 \<le> 99"
    by (rule accuracy_range[OF x])+
  have near: "\<bar>real_of_int \<lfloor>x * 10 + 1 / 2\<rfloor> / 10 - x\<bar> \<le> 1 / 20"
  proof -
    define z where "z = real_of_int \<lfloor>x * 10 + 1 / 2\<rfloor>"
    have "z \<le> x * 10 + 1 / 2" unfolding z_def by (rule of_int_floor_le)
    moreover have "x * 10 + 1 / 2 < z + 1" unfolding z_def by linarith
    ultimately have "\<bar>z / 10 - x\<bar> \<le> 1 / 20" by linarith
    then show ?thesis unfolding z_def .
  qed
  have m: "10 \<le> n div 10" "n div 10 < 100" using n by simp_all
  have two: "dec_nat (n div 10) = [digit_char (n div 10 div 10), digit_char (n div 10 mod 10)]"
  proof -
    have "n div 10 div 10 < 10" using m by simp
    then have "dec_nat (n div 10 div 10) = [digit_char (n div 10 div 10)]"
      by (subst dec_nat.simps) simp
    then show ?thesis using m by (subst dec_nat.simps) simp
  qed
  have shape: "toFixed1 x = [digit_char (n div 10 div 10), digit_char (n div 10 mod 10), CHR ''.'', digit_char (n mod 10)]"
    unfolding toFixed1_nonneg[OF x0] n_def[symmetric] two by simp
  have nopct: "\<And>d. d < 10 \<Longrightarrow> digit_char d \<noteq> CHR ''%''"
  proof -
    fix d :: nat assume "d < 10"
    then have "is_digit (digit_char d)" by (rule digit_char_is_digit)
    moreover have "\<not> is_digit CHR ''%''" by (simp add: is_digit_def)
    ultimately show "digit_char d \<noteq> CHR ''%''" by auto
  qed
  have d1: "n div 10 div 10 < 10" using m by simp
  have d2: "n div 10 mod 10 < 10" and d3: "n mod 10 < 10" by simp_all
  have pct: "CHR ''%'' \<notin> set (toFixed1 x)"
    unfolding shape using nopct[OF d1] nopct[OF d2] nopct[OF d3] by auto
  have len: "length (toFixed1 x) = 4" unfolding shape by simp
  show ?thesis
    unfolding acc x_def[symmetric] by (intro conjI x val rng near len pct)
qed

text \<open>The draw \<open>1/2\<close>: \<open>70 + 14.5 = 84.5\<close>, every step exact.\<close>

theorem fakeDetection_accuracy_fixed1_witness:
  "rounds_to_nearest nearest_double \<and> unit_draws (\<lambda>k. 1 / 2) \<and>
   det_accuracy (fakeDetection nearest_double ''a.png'' (\<lambda>k. 1 / 2)) = ''84.5'' \<and>
   fixed1_value (det_accuracy (fakeDetection nearest_double ''a.png'' (\<lambda>k. 1 / 2))) = Some (845 / 10)"
proof -
  note h1 = nearest_double_rounds
  have half: "is_double (1 / 2)" using is_double_frac[of 1 1] by simp
  have h2: "unit_draws (\<lambda>k. 1 / 2)" by (simp add: unit_draws_def half list_all_iff)
  have p: "is_double (29 / 2)" using is_double_frac[of 29 1] by simp
  have q: "is_double (169 / 2)" using is_double_frac[of 169 1] by simp
  have a1: "1 / 2 * 29 = (29 / 2 :: real)" and a2: "70 + 29 / 2 = (169 / 2 :: real)" by simp_all
  have e: "nearest_double (70 + nearest_double (1 / 2 * 29)) = 169 / 2"
  proof -
    have "nearest_double (29 / 2) = 29 / 2" by (rule fl_exact[OF h1 p]) simp_all
    moreover have "nearest_double (169 / 2) = 169 / 2" by (rule fl_exact[OF h1 q]) simp_all
    ultimately show ?thesis unfolding a1 by (simp only: a2)
  qed
  have t: "toFixed1 (169 / 2) = ''84.5''" by code_simp
  have a0: "det_accuracy (fakeDetection nearest_double ''a.png'' (\<lambda>k. 1 / 2))
      = toFixed1 (nearest_double (70 + nearest_double (1 / 2 * 29)))"
    by (simp add: fakeDetection_def Let_def)
  have a: "det_accuracy (fakeDetection nearest_double ''a.png'' (\<lambda>k. 1 / 2)) = ''84.5''"
    unfolding a0 e t ..
  have "fixed1_value (det_accuracy (fakeDetection nearest_double ''a.png'' (\<lambda>k. 1 / 2)))
      = Some (real_of_int \<lfloor>nearest_double (70 + nearest_double (1 / 2 * 29)) * 10 + 1 / 2\<rfloor> / 10)"
    using fakeDetection_accuracy_fixed1[OF h1 h2, where fileName = "''a.png''"] by simp
  then have v: "fixed1_value (det_accuracy (fakeDetection nearest_double ''a.png'' (\<lambda>k. 1 / 2)))
      = Some (845 / 10)"
    unfolding e by simp
  from h1 h2 a v show ?thesis by blast
qed

section \<open>The dominant type of a record\<close>

text \<open>
  Claim C2. For a record with at least one count, \<open>counts.indexOf(Math.max(...counts))\<close>
  is the first index that holds the largest count: it is a valid index, the count there
  is the maximum, and every earlier count is smaller. The history row, the CSV row and
  the row of the printed report all take their dominant type from \<open>TYPES\<close> at this
  index. With the counts \<open>[2, 2, 0, 0]\<close> the index is 0 and all three show \<open>Fiber\<close>.
  These rows are what the page shows and exports: \<open>addHistoryRow\<close> (called by
  \<open>reader_onload\<close> for the record it pushes) appends the history row to the table; with a
  record in the store, \<open>downloadCSV\<close> offers the document that reads back as the header
  and the CSV row of every stored record, and \<open>printReport\<close>, given a window, writes into
  it the report whose rows are the report rows of the stored records.
\<close>

theorem dominant_type_first_argmax:
  assumes "img_counts img \<noteq> []"
  shows "0 \<le> domTypeIndex (img_counts img) \<and>
         domTypeIndex (img_counts img) < int (length (img_counts img)) \<and>
         img_counts img ! nat (domTypeIndex (img_counts img)) = Max (set (img_counts img)) \<and>
         (\<forall>j < nat (domTypeIndex (img_counts img)). img_counts img ! j < Max (set (img_counts img))) \<and>
         row_domType (history_row img) = or_Unknown (js_index TYPES (domTypeIndex (img_counts img))) \<and>
         csv_row img ! 1 = cell_of (js_index TYPES (domTypeIndex (img_counts img))) \<and>
         row_domType (print_row img) = String_js (cell_of (js_index TYPES (domTypeIndex (img_counts img)))) \<and>
         (img_counts img = [2, 2, 0, 0] \<longrightarrow>
            domTypeIndex (img_counts img) = 0 \<and>
            row_domType (history_row img) = ''Fiber'' \<and>
            csv_row img ! 1 = CStr ''Fiber'' \<and>
            row_domType (print_row img) = ''Fiber'') \<and>
         historyTableBody (addHistoryRow img s) = historyTableBody s @ [history_row img] \<and>
         historyTableBody (reader_onload fl fileName src rnd s)
           = historyTableBody s @ [history_row (imgObj_of fl fileName rnd)] \<and>
         (allImages s \<noteq> [] \<longrightarrow>
            downloads (downloadCSV s) = downloads s @
              [\<lparr>dl_filename = ''microplastics_history.csv'', dl_type = ''text/csv;charset=utf-8;'',
                dl_content = csvContent (allImages s)\<rparr>] \<and>
            csv_read (csvContent (allImages s))
              = Some (map String_js csv_header # map (\<lambda>i. map String_js (csv_row i)) (allImages s)) \<and>
            windows (printReport True now s) = windows s @
              [\<lparr>pw_written = [\<lparr>rep_generated = now, rep_rows = map print_row (allImages s)\<rparr>],
                pw_prints = 0\<rparr>])"
proof -
  have ex: "domTypeIndex [2, 2, 0, 0] = 0" by (simp add: domTypeIndex_def indexOf_def)
  have fiber: "js_index TYPES 0 = Some ''Fiber''" by (simp add: js_index_def TYPES_def)
  have sample: "img_counts img = [2, 2, 0, 0] \<longrightarrow>
            domTypeIndex (img_counts img) = 0 \<and>
            row_domType (history_row img) = ''Fiber'' \<and>
            csv_row img ! 1 = CStr ''Fiber'' \<and>
            row_domType (print_row img) = ''Fiber''"
    unfolding history_row_domType csv_row_domType print_row_domType
    by (simp add: ex fiber or_Unknown_def cell_of_def)
  have exports: "allImages s \<noteq> [] \<longrightarrow>
            downloads (downloadCSV s) = downloads s @
              [\<lparr>dl_filename = ''microplastics_history.csv'', dl_type = ''text/csv;charset=utf-8;'',
                dl_content = csvContent (allImages s)\<rparr>] \<and>
            csv_read (csvContent (allImages s))
              = Some (map String_js csv_header # map (\<lambda>i. map String_js (csv_row i)) (allImages s)) \<and>
            windows (printReport True now s) = windows s @
              [\<lparr>pw_written = [\<lparr>rep_generated = now, rep_rows = map print_row (allImages s)\<rparr>],
                pw_prints = 0\<rparr>]"
    using downloadCSV_offers[of s] printReport_writes(1)[of s now] csv_read_content[of "allImages s"]
    by blast
  note arg = domTypeIndex_argmax[OF assms]
  show ?thesis
    by (intro conjI arg[THEN conjunct1] arg[THEN conjunct2, THEN conjunct1]
          arg[THEN conjunct2, THEN conjunct2, THEN conjunct1]
          arg[THEN conjunct2, THEN conjunct2, THEN conjunct2]
          history_row_domType csv_row_domType print_row_domType sample
          addHistoryRow_appends reader_onload_historyTableBody exports)
qed

text \<open>
  The record \<open>img22\<close> with the counts \<open>[2, 2, 0, 0]\<close>, and the report printed from the page
  after \<open>sample_events\<close>.
\<close>

theorem dominant_type_first_argmax_witness:
  "img_counts img22 \<noteq> [] \<and> img_counts img22 = [2, 2, 0, 0] \<and> domTypeIndex (img_counts img22) = 0 \<and>
   row_domType (history_row img22) = ''Fiber'' \<and> csv_row img22 ! 1 = CStr ''Fiber'' \<and>
   row_domType (print_row img22) = ''Fiber'' \<and>
   allImages sample_page \<noteq> [] \<and>
   map row_domType (rep_rows (hd (pw_written (last (windows (printReport True ''now'' sample_page))))))
     = [''Fragment'', ''Fiber'']"
proof -
  have h: "img_counts img22 \<noteq> []" by (simp add: img22_def)
  have e: "img_counts img22 = [2, 2, 0, 0]" by (simp add: img22_def)
  have p: "allImages sample_page \<noteq> []" by (simp add: sample_page_allImages)
  note t = dominant_type_first_argmax[OF h, where s = sample_page and now = "''now''"]
  have w: "windows (printReport True ''now'' sample_page) = windows sample_page @
              [\<lparr>pw_written = [\<lparr>rep_generated = ''now'', rep_rows = map print_row (allImages sample_page)\<rparr>],
                pw_prints = 0\<rparr>]"
    using t p by blast
  have i: "domTypeIndex [3, 5, 5, 0] = 1" "domTypeIndex [1, 0, 0, 0] = 0"
    by (simp_all add: domTypeIndex_def indexOf_def)
  have r: "map row_domType (rep_rows (hd (pw_written (last (windows (printReport True ''now'' sample_page))))))
     = [''Fragment'', ''Fiber'']"
    unfolding w sample_page_allImages
    by (simp add: print_row_domType i js_index_def TYPES_def cell_of_def)
  from t h e p r show ?thesis by blast
qed

text \<open>
  Claim C7 as stated fails: a record whose four counts are all zero has its maximum 0 at
  index 0, so the history row shows \<open>Fiber\<close>, not \<open>Unknown\<close>.
\<close>

theorem all_zero_counts_not_Unknown:
  "img_counts img_zero = [0, 0, 0, 0] \<and> row_domType (history_row img_zero) = ''Fiber'' \<and>
   row_domType (history_row img_zero) \<noteq> ''Unknown''"
  by (simp add: img_zero_def history_row_def indexOf_def js_index_def TYPES_def or_Unknown_def)

text \<open>
  Claim C7, amended. The history row falls back to \<open>Unknown\<close> exactly when the index
  selects no entry of \<open>TYPES\<close>: the counts are empty, or their first maximum is at index 4
  or beyond. A record whose counts are all zero (and not empty) shows the first category
  \<open>Fiber\<close>. The counts of \<open>fakeDetection\<close> are never all zero.
\<close>

theorem Unknown_fallback_iff:
  "(row_domType (history_row img) = ''Unknown'' \<longleftrightarrow>
      img_counts img = [] \<or> 4 \<le> domTypeIndex (img_counts img)) \<and>
   (img_counts img \<noteq> [] \<and> (\<forall>c \<in> set (img_counts img). c = 0) \<longrightarrow>
      row_domType (history_row img) = ''Fiber'') \<and>
   \<not> (\<forall>c \<in> set (det_counts (fakeDetection fl fileName rnd)). c = 0)"
proof -
  have one: "row_domType (history_row img) = ''Unknown'' \<longleftrightarrow>
      img_counts img = [] \<or> 4 \<le> domTypeIndex (img_counts img)"
  proof (cases "img_counts img = []")
    case True
    then show ?thesis
      unfolding history_row_domType by (simp add: domTypeIndex_Nil TYPES_outside or_Unknown_def)
  next
    case False
    note ne = domTypeIndex_argmax[OF False]
    show ?thesis
    proof (cases "4 \<le> domTypeIndex (img_counts img)")
      case True
      then show ?thesis
        unfolding history_row_domType by (simp add: TYPES_outside or_Unknown_def)
    next
      case f: False
      then have i: "0 \<le> domTypeIndex (img_counts img)" "domTypeIndex (img_counts img) < 4"
        using ne by simp_all
      show ?thesis
        unfolding history_row_domType using TYPES_index[OF i] False f by (simp add: or_Unknown_def)
    qed
  qed
  have two: "img_counts img \<noteq> [] \<and> (\<forall>c \<in> set (img_counts img). c = 0) \<longrightarrow>
      row_domType (history_row img) = ''Fiber''"
  proof (intro impI, elim conjE)
    assume "img_counts img \<noteq> []" "\<forall>c \<in> set (img_counts img). c = 0"
    then have "domTypeIndex (img_counts img) = 0" by (rule all_zero_index)
    then show "row_domType (history_row img) = ''Fiber''"
      unfolding history_row_domType by (simp add: js_index_def TYPES_def or_Unknown_def)
  qed
  have three: "\<not> (\<forall>c \<in> set (det_counts (fakeDetection fl fileName rnd)). c = 0)"
    unfolding fakeDetection_counts by auto
  from one two three show ?thesis by blast
qed

text \<open>The record \<open>img_zero\<close> shows \<open>Fiber\<close>; with its counts emptied it shows \<open>Unknown\<close>.\<close>

theorem Unknown_fallback_iff_witness:
  "img_counts img_zero = [0, 0, 0, 0] \<and>
   row_domType (history_row img_zero) = ''Fiber'' \<and>
   row_domType (history_row (img_zero\<lparr>img_counts := []\<rparr>)) = ''Unknown''"
proof -
  have h: "img_counts img_zero \<noteq> []" "\<forall>c \<in> set (img_counts img_zero). c = 0"
    by (simp_all add: img_zero_def)
  have e: "img_counts (img_zero\<lparr>img_counts := []\<rparr>) = []" by simp
  from Unknown_fallback_iff[of img_zero] h have "row_domType (history_row img_zero) = ''Fiber''" by blast
  moreover from Unknown_fallback_iff[of "img_zero\<lparr>img_counts := []\<rparr>"] e
  have "row_domType (history_row (img_zero\<lparr>img_counts := []\<rparr>)) = ''Unknown''" by blast
  ultimately show ?thesis using h by (simp add: img_zero_def)
qed

text \<open>
  Claim C10. For a record with four counts, the dominant type shown in the history row,
  on the card, in the CSV row and in the row of the printed report is the same string,
  \<open>TYPES\<close> at the first index of the largest count; that index is below 4, so the history
  row never shows \<open>Unknown\<close>. On the page after \<open>reader_onload\<close> has pushed a record, this
  string is the dominant type on the newest card, in the last row of the history table,
  in the last row of the document that \<open>downloadCSV\<close> offers (read back as CSV) and in
  the last row of the report that \<open>printReport\<close> writes into its window.
\<close>

theorem dominant_labels_agree:
  "(length (img_counts img) = 4 \<and> det_counts det = img_counts img \<longrightarrow>
      0 \<le> domTypeIndex (img_counts img) \<and> domTypeIndex (img_counts img) < 4 \<and>
      row_domType (history_row img) = TYPES ! nat (domTypeIndex (img_counts img)) \<and>
      card_domType (image_card src short det) = TYPES ! nat (domTypeIndex (img_counts img)) \<and>
      String_js (csv_row img ! 1) = TYPES ! nat (domTypeIndex (img_counts img)) \<and>
      row_domType (print_row img) = TYPES ! nat (domTypeIndex (img_counts img)) \<and>
      row_domType (history_row img) \<noteq> ''Unknown'') \<and>
   (let s' = reader_onload fl fileName data rnd s; new = last (allImages s')
    in length (img_counts new) = 4 \<and>
       card_domType (hd (imageGrid s')) = TYPES ! nat (domTypeIndex (img_counts new)) \<and>
       row_domType (last (historyTableBody s')) = TYPES ! nat (domTypeIndex (img_counts new)) \<and>
       String_js (csv_row new ! 1) = TYPES ! nat (domTypeIndex (img_counts new)) \<and>
       row_domType (print_row new) = TYPES ! nat (domTypeIndex (img_counts new)) \<and>
       downloads (downloadCSV s') = downloads s' @
         [\<lparr>dl_filename = ''microplastics_history.csv'', dl_type = ''text/csv;charset=utf-8;'',
           dl_content = csvContent (allImages s')\<rparr>] \<and>
       csv_read (dl_content (last (downloads (downloadCSV s'))))
         = Some (map String_js csv_header # map (\<lambda>i. map String_js (csv_row i)) (allImages s')) \<and>
       last (the (csv_read (dl_content (last (downloads (downloadCSV s')))))) ! 1
         = TYPES ! nat (domTypeIndex (img_counts new)) \<and>
       windows (printReport True now s') = windows s' @
         [\<lparr>pw_written = [\<lparr>rep_generated = now, rep_rows = map print_row (allImages s')\<rparr>],
           pw_prints = 0\<rparr>] \<and>
       row_domType (last (rep_rows (hd (pw_written (last (windows (printReport True now s')))))))
         = TYPES ! nat (domTypeIndex (img_counts new)))"
proof -
  define s' where "s' = reader_onload fl fileName data rnd s"
  define new where "new = last (allImages s')"
  define label where "label = TYPES ! nat (domTypeIndex (img_counts new))"
  have new: "new = imgObj_of fl fileName rnd" unfolding new_def s'_def by simp
  have ne: "allImages s' \<noteq> []" unfolding s'_def by simp
  have len: "length (img_counts new) = 4" unfolding new by (rule imgObj_of_counts_length)
  have det: "det_counts (fakeDetection fl fileName rnd) = img_counts new"
    unfolding new by (simp add: imgObj_of_def Let_def)
  note a = labels_agree[OF len det, of data "shortName fileName", folded label_def]
  have card: "card_domType (hd (imageGrid s')) = label"
    unfolding s'_def using a by simp
  have row: "row_domType (last (historyTableBody s')) = label"
    unfolding s'_def using a new by simp
  have csv: "String_js (csv_row new ! 1) = label" and prt: "row_domType (print_row new) = label"
    using a by simp_all
  note dl = downloadCSV_offers[OF ne]
  have rd: "csv_read (dl_content (last (downloads (downloadCSV s'))))
         = Some (map String_js csv_header # map (\<lambda>i. map String_js (csv_row i)) (allImages s'))"
    unfolding dl by (simp add: csv_read_content)
  have rdl: "last (the (csv_read (dl_content (last (downloads (downloadCSV s')))))) ! 1 = label"
  proof -
    have "last (the (csv_read (dl_content (last (downloads (downloadCSV s'))))))
        = map String_js (csv_row new)"
      unfolding rd option.sel last_export_row[OF ne] new_def ..
    moreover have "1 < length (csv_row new)" by (simp add: csv_row_def Let_def)
    ultimately show ?thesis using csv by simp
  qed
  note pw = printReport_writes(1)[OF ne, of now]
  have prl: "row_domType (last (rep_rows (hd (pw_written (last (windows (printReport True now s'))))))) = label"
    unfolding pw using prt ne by (simp add: last_map new_def)
  have second: "length (img_counts new) = 4 \<and>
       card_domType (hd (imageGrid s')) = label \<and>
       row_domType (last (historyTableBody s')) = label \<and>
       String_js (csv_row new ! 1) = label \<and>
       row_domType (print_row new) = label \<and>
       downloads (downloadCSV s') = downloads s' @
         [\<lparr>dl_filename = ''microplastics_history.csv'', dl_type = ''text/csv;charset=utf-8;'',
           dl_content = csvContent (allImages s')\<rparr>] \<and>
       csv_read (dl_content (last (downloads (downloadCSV s'))))
         = Some (map String_js csv_header # map (\<lambda>i. map String_js (csv_row i)) (allImages s')) \<and>
       last (the (csv_read (dl_content (last (downloads (downloadCSV s')))))) ! 1 = label \<and>
       windows (printReport True now s') = windows s' @
         [\<lparr>pw_written = [\<lparr>rep_generated = now, rep_rows = map print_row (allImages s')\<rparr>],
           pw_prints = 0\<rparr>] \<and>
       row_domType (last (rep_rows (hd (pw_written (last (windows (printReport True now s'))))))) = label"
    by (intro conjI len card row csv prt dl rd rdl pw prl)
  have first: "length (img_counts img) = 4 \<and> det_counts det = img_counts img \<longrightarrow>
      0 \<le> domTypeIndex (img_counts img) \<and> domTypeIndex (img_counts img) < 4 \<and>
      row_domType (history_row img) = TYPES ! nat (domTypeIndex (img_counts img)) \<and>
      card_domType (image_card src short det) = TYPES ! nat (domTypeIndex (img_counts img)) \<and>
      String_js (csv_row img ! 1) = TYPES ! nat (domTypeIndex (img_counts img)) \<and>
      row_domType (print_row img) = TYPES ! nat (domTypeIndex (img_counts img)) \<and>
      row_domType (history_row img) \<noteq> ''Unknown''"
    using labels_agree[of img det src short] by blast
  from first second show ?thesis
    unfolding Let_def label_def new_def s'_def by (rule conjI)
qed

text \<open>
  The record \<open>img22\<close> with its detection \<open>det22\<close>, and the page after \<open>sample_events\<close>,
  whose last load is the second file: all views show \<open>Fiber\<close>.
\<close>

theorem dominant_labels_agree_witness:
  "length (img_counts img22) = 4 \<and> det_counts det22 = img_counts img22 \<and>
   row_domType (history_row img22) = ''Fiber'' \<and>
   card_domType (image_card ''data:1'' ''a.png'' det22) = ''Fiber'' \<and>
   String_js (csv_row img22 ! 1) = ''Fiber'' \<and>
   row_domType (print_row img22) = ''Fiber'' \<and>
   card_domType (hd (imageGrid sample_page)) = ''Fiber'' \<and>
   row_domType (last (historyTableBody sample_page)) = ''Fiber'' \<and>
   last (the (csv_read (dl_content (last (downloads (downloadCSV sample_page)))))) ! 1 = ''Fiber'' \<and>
   row_domType (last (rep_rows (hd (pw_written (last (windows (printReport True ''now'' sample_page)))))))
     = ''Fiber''"
proof -
  have h: "length (img_counts img22) = 4 \<and> det_counts det22 = img_counts img22"
    by (simp add: img22_def det22_def)
  have i: "TYPES ! nat (domTypeIndex (img_counts img22)) = ''Fiber''"
    by (simp add: img22_def domTypeIndex_def indexOf_def TYPES_def)
  have j: "TYPES ! nat (domTypeIndex (img_counts (last (allImages sample_page)))) = ''Fiber''"
    by (simp add: sample_page_allImages domTypeIndex_def indexOf_def TYPES_def)
  note t = dominant_labels_agree[of img22 det22 "''data:1''" "''a.png''" nearest_double
      "''a_rather_long_file_name.png''" "''data:2''" "\<lambda>k. 0"
      "reader_onload nearest_double ''My\"File.png'' ''data:1''
          (draws_of [1 / 2, 7 / 8, 7 / 8, 1 / 8, 1 / 4, 1 / 2]) (init_page :: real option page)" "''now''",
      unfolded Let_def, folded sample_page_unfold, unfolded i j]
  from t h show ?thesis by blast
qed

section \<open>Cards, table and charts along a run\<close>

text \<open>
  Claim C5. After any sequence of events from the initial page, with \<open>loads es\<close> the files
  loaded in order: the store holds their records in load order; the card list is the
  exact reverse of the store (the newest card first); the history table has one row per
  record in store order; \<open>updateCharts\<close> puts the labels and the data of both charts in
  store order; and all views have as many entries as files were loaded. The charts are
  updated by timer: every load schedules \<open>updateCharts\<close> with a delay of 100; when such a
  timer fires, the charts the page holds are the labels, the per-category data and the
  accuracy data of all stored records in store order, each of length \<open>N\<close>; and at any
  moment the charts show the first \<open>m\<close> records of the store in store order, with a chart
  update still pending whenever \<open>m\<close> is less than \<open>N\<close>.
\<close>

theorem views_follow_store_order:
  "(let s = run fl Number es init_page; n = length (loads es)
    in allImages s = map (\<lambda>(f, src, rnd). imgObj_of fl f rnd) (loads es) \<and>
       imageGrid s = rev (map (\<lambda>((f, src, rnd), img). card_of_image src img) (zip (loads es) (allImages s))) \<and>
       map card_heading (imageGrid s) = rev (map img_shortName (allImages s)) \<and>
       historyTableBody s = map history_row (allImages s) \<and>
       comp_labels (updateCharts Number s) = map img_shortName (allImages s) \<and>
       map ds_data (comp_datasets (updateCharts Number s))
         = map (\<lambda>t. map (\<lambda>img. js_index (img_counts img) (int t)) (allImages s)) [0 ..< 4] \<and>
       acc_labels (updateCharts Number s) = map img_shortName (allImages s) \<and>
       acc_data (updateCharts Number s) = map (\<lambda>img. Number (img_accuracy img)) (allImages s) \<and>
       length (allImages s) = n \<and> length (imageGrid s) = n \<and> length (historyTableBody s) = n \<and>
       length (comp_labels (updateCharts Number s)) = n \<and>
       length (acc_data (updateCharts Number s)) = n \<and>
       timers (step fl Number (Onload fileName src rnd) s) = timers s @ [(100, UpdateCharts)] \<and>
       (\<forall>k < length (timers s). snd (timers s ! k) = UpdateCharts \<longrightarrow>
          allImages (step fl Number (Timeout k) s) = allImages s \<and>
          timers (step fl Number (Timeout k) s) = take k (timers s) @ drop (Suc k) (timers s) \<and>
          comp_labels (step fl Number (Timeout k) s) = map img_shortName (allImages s) \<and>
          map ds_data (comp_datasets (step fl Number (Timeout k) s))
            = map (\<lambda>t. map (\<lambda>img. js_index (img_counts img) (int t)) (allImages s)) [0 ..< 4] \<and>
          acc_labels (step fl Number (Timeout k) s) = map img_shortName (allImages s) \<and>
          acc_data (step fl Number (Timeout k) s) = map (\<lambda>img. Number (img_accuracy img)) (allImages s) \<and>
          length (comp_labels (step fl Number (Timeout k) s)) = n \<and>
          length (acc_data (step fl Number (Timeout k) s)) = n) \<and>
       (\<exists>m \<le> n. series s = chart_projection Number (take m (allImages s)) \<and>
                 (m = n \<or> UpdateCharts \<in> snd ` set (timers s))))"
proof -
  define s where "s = run fl Number es init_page"
  define ls where "ls = loads es"
  have store: "allImages s = map (\<lambda>(f, src, rnd). imgObj_of fl f rnd) ls"
    unfolding s_def ls_def run_allImages by simp
  have grid0: "imageGrid s = rev (map (\<lambda>(f, src, rnd). image_card src (shortName f) (fakeDetection fl f rnd)) ls)"
    unfolding s_def ls_def run_imageGrid by simp
  have grid: "imageGrid s = rev (map (\<lambda>((f, src, rnd), img). card_of_image src img) (zip ls (allImages s)))"
    unfolding grid0 store zip_loads_map ..
  have heads: "map card_heading (imageGrid s) = rev (map img_shortName (allImages s))"
  proof -
    have "map card_heading (map (\<lambda>(f, src, rnd). image_card src (shortName f) (fakeDetection fl f rnd)) ls)
        = map img_shortName (map (\<lambda>(f, src, rnd). imgObj_of fl f rnd) ls)"
      by (induction ls) (auto simp: image_card_def imgObj_of_def Let_def)
    then show ?thesis unfolding grid0 store by (simp add: rev_map)
  qed
  have table: "historyTableBody s = map history_row (allImages s)"
    unfolding store unfolding s_def ls_def run_historyTableBody by (simp add: case_prod_beta comp_def)
  have four: "length (comp_datasets s) = 4" unfolding s_def by (rule reachable_length)
  have data: "map ds_data (comp_datasets (updateCharts Number s))
         = map (\<lambda>t. map (\<lambda>img. js_index (img_counts img) (int t)) (allImages s)) [0 ..< 4]"
    unfolding updateCharts_data four ..
  have n1: "length (allImages s) = length ls" unfolding store by simp
  have n2: "length (imageGrid s) = length ls" unfolding grid0 by simp
  have n3: "length (historyTableBody s) = length ls" unfolding table n1[symmetric] by simp
  have n4: "length (comp_labels (updateCharts Number s)) = length ls"
    unfolding updateCharts_series n1[symmetric] by simp
  have n5: "length (acc_data (updateCharts Number s)) = length ls"
    unfolding updateCharts_series n1[symmetric] by simp
  have sched: "timers (step fl Number (Onload fileName src rnd) s) = timers s @ [(100, UpdateCharts)]"
    by simp
  have fired: "\<forall>k < length (timers s). snd (timers s ! k) = UpdateCharts \<longrightarrow>
          allImages (step fl Number (Timeout k) s) = allImages s \<and>
          timers (step fl Number (Timeout k) s) = take k (timers s) @ drop (Suc k) (timers s) \<and>
          comp_labels (step fl Number (Timeout k) s) = map img_shortName (allImages s) \<and>
          map ds_data (comp_datasets (step fl Number (Timeout k) s))
            = map (\<lambda>t. map (\<lambda>img. js_index (img_counts img) (int t)) (allImages s)) [0 ..< 4] \<and>
          acc_labels (step fl Number (Timeout k) s) = map img_shortName (allImages s) \<and>
          acc_data (step fl Number (Timeout k) s) = map (\<lambda>img. Number (img_accuracy img)) (allImages s) \<and>
          length (comp_labels (step fl Number (Timeout k) s)) = length ls \<and>
          length (acc_data (step fl Number (Timeout k) s)) = length ls"
  proof (intro allI impI)
    fix k assume k: "k < length (timers s)" and u: "snd (timers s ! k) = UpdateCharts"
    note f = fired_chart_timer[OF k u four, of fl Number]
    from f(1) have c: "comp_labels (step fl Number (Timeout k) s) = map img_shortName (allImages s)"
      and d: "map ds_data (comp_datasets (step fl Number (Timeout k) s))
            = map (\<lambda>t. map (\<lambda>img. js_index (img_counts img) (int t)) (allImages s)) [0 ..< 4]"
      and a: "acc_labels (step fl Number (Timeout k) s) = map img_shortName (allImages s)"
      and b: "acc_data (step fl Number (Timeout k) s) = map (\<lambda>img. Number (img_accuracy img)) (allImages s)"
      unfolding series_def chart_projection_def by simp_all
    have l1: "length (comp_labels (step fl Number (Timeout k) s)) = length ls"
      unfolding c n1[symmetric] by simp
    have l2: "length (acc_data (step fl Number (Timeout k) s)) = length ls"
      unfolding b n1[symmetric] by simp
    show "allImages (step fl Number (Timeout k) s) = allImages s \<and>
          timers (step fl Number (Timeout k) s) = take k (timers s) @ drop (Suc k) (timers s) \<and>
          comp_labels (step fl Number (Timeout k) s) = map img_shortName (allImages s) \<and>
          map ds_data (comp_datasets (step fl Number (Timeout k) s))
            = map (\<lambda>t. map (\<lambda>img. js_index (img_counts img) (int t)) (allImages s)) [0 ..< 4] \<and>
          acc_labels (step fl Number (Timeout k) s) = map img_shortName (allImages s) \<and>
          acc_data (step fl Number (Timeout k) s) = map (\<lambda>img. Number (img_accuracy img)) (allImages s) \<and>
          length (comp_labels (step fl Number (Timeout k) s)) = length ls \<and>
          length (acc_data (step fl Number (Timeout k) s)) = length ls"
      by (intro conjI f(2) f(3) c d a b l1 l2)
  qed
  have lag: "\<exists>m \<le> length ls. series s = chart_projection Number (take m (allImages s)) \<and>
                 (m = length ls \<or> UpdateCharts \<in> snd ` set (timers s))"
    using reachable_charts_lag[of Number fl es] unfolding charts_lag_def s_def[symmetric] n1 .
  have "allImages s = map (\<lambda>(f, src, rnd). imgObj_of fl f rnd) ls \<and>
       imageGrid s = rev (map (\<lambda>((f, src, rnd), img). card_of_image src img) (zip ls (allImages s))) \<and>
       map card_heading (imageGrid s) = rev (map img_shortName (allImages s)) \<and>
       historyTableBody s = map history_row (allImages s) \<and>
       comp_labels (updateCharts Number s) = map img_shortName (allImages s) \<and>
       map ds_data (comp_datasets (updateCharts Number s))
         = map (\<lambda>t. map (\<lambda>img. js_index (img_counts img) (int t)) (allImages s)) [0 ..< 4] \<and>
       acc_labels (updateCharts Number s) = map img_shortName (allImages s) \<and>
       acc_data (updateCharts Number s) = map (\<lambda>img. Number (img_accuracy img)) (allImages s) \<and>
       length (allImages s) = length ls \<and> length (imageGrid s) = length ls \<and>
       length (historyTableBody s) = length ls \<and>
       length (comp_labels (updateCharts Number s)) = length ls \<and>
       length (acc_data (updateCharts Number s)) = length ls \<and>
       timers (step fl Number (Onload fileName src rnd) s) = timers s @ [(100, UpdateCharts)] \<and>
       (\<forall>k < length (timers s). snd (timers s ! k) = UpdateCharts \<longrightarrow>
          allImages (step fl Number (Timeout k) s) = allImages s \<and>
          timers (step fl Number (Timeout k) s) = take k (timers s) @ drop (Suc k) (timers s) \<and>
          comp_labels (step fl Number (Timeout k) s) = map img_shortName (allImages s) \<and>
          map ds_data (comp_datasets (step fl Number (Timeout k) s))
            = map (\<lambda>t. map (\<lambda>img. js_index (img_counts img) (int t)) (allImages s)) [0 ..< 4] \<and>
          acc_labels (step fl Number (Timeout k) s) = map img_shortName (allImages s) \<and>
          acc_data (step fl Number (Timeout k) s) = map (\<lambda>img. Number (img_accuracy img)) (allImages s) \<and>
          length (comp_labels (step fl Number (Timeout k) s)) = length ls \<and>
          length (acc_data (step fl Number (Timeout k) s)) = length ls) \<and>
       (\<exists>m \<le> length ls. series s = chart_projection Number (take m (allImages s)) \<and>
                 (m = length ls \<or> UpdateCharts \<in> snd ` set (timers s)))"
    by (intro conjI store grid heads table data updateCharts_series n1 n2 n3 n4 n5 sched fired lag)
  then show ?thesis unfolding Let_def s_def ls_def .
qed

text \<open>
  The page after \<open>sample_events\<close>: the cards are in reverse, rows and labels in order; two
  chart updates are pending, and firing the first one brings both charts up to date.
\<close>

theorem views_follow_store_order_witness:
  "map img_name (allImages sample_page) = [''My\"File.png'', ''a_rather_long_file_name.png''] \<and>
   map card_heading (imageGrid sample_page) = [''a_rather_long_f...'', ''My\"File.png''] \<and>
   map row_name (historyTableBody sample_page) = [''My\"File.png'', ''a_rather_long_file_name.png''] \<and>
   comp_labels (updateCharts fixed1_value sample_page) = [''My\"File.png'', ''a_rather_long_f...''] \<and>
   length (imageGrid sample_page) = 2 \<and>
   timers sample_page = [(100, UpdateCharts), (100, UpdateCharts)] \<and>
   comp_labels (step nearest_double fixed1_value (Timeout 0) sample_page)
     = [''My\"File.png'', ''a_rather_long_f...''] \<and>
   map ds_data (comp_datasets (step nearest_double fixed1_value (Timeout 0) sample_page))
     = [[Some 3, Some 1], [Some 5, Some 0], [Some 5, Some 0], [Some 0, Some 0]] \<and>
   acc_labels (step nearest_double fixed1_value (Timeout 0) sample_page)
     = [''My\"File.png'', ''a_rather_long_f...''] \<and>
   acc_data (step nearest_double fixed1_value (Timeout 0) sample_page) = [Some (845 / 10), Some 70] \<and>
   timers (step nearest_double fixed1_value (Timeout 0) sample_page) = [(100, UpdateCharts)]"
proof -
  note t = views_follow_store_order[of nearest_double fixed1_value sample_events,
      unfolded Let_def, folded sample_page_def]
  have heads: "map card_heading (imageGrid sample_page) = rev (map img_shortName (allImages sample_page))"
    using t by blast
  have table: "historyTableBody sample_page = map history_row (allImages sample_page)"
    using t by blast
  have labels: "comp_labels (updateCharts fixed1_value sample_page) = map img_shortName (allImages sample_page)"
    using t by blast
  have len: "length (imageGrid sample_page) = length (allImages sample_page)"
    using t by simp
  have row: "row_name (history_row img) = img_name img" for img
    by (simp add: history_row_def Let_def)
  have k: "0 < length (timers sample_page)" "snd (timers sample_page ! 0) = UpdateCharts"
    by (simp_all add: timers_sample_page)
  have "\<forall>k < length (timers sample_page). snd (timers sample_page ! k) = UpdateCharts \<longrightarrow>
          allImages (step nearest_double fixed1_value (Timeout k) sample_page) = allImages sample_page \<and>
          timers (step nearest_double fixed1_value (Timeout k) sample_page)
            = take k (timers sample_page) @ drop (Suc k) (timers sample_page) \<and>
          comp_labels (step nearest_double fixed1_value (Timeout k) sample_page)
            = map img_shortName (allImages sample_page) \<and>
          map ds_data (comp_datasets (step nearest_double fixed1_value (Timeout k) sample_page))
            = map (\<lambda>t. map (\<lambda>img. js_index (img_counts img) (int t)) (allImages sample_page)) [0 ..< 4] \<and>
          acc_labels (step nearest_double fixed1_value (Timeout k) sample_page)
            = map img_shortName (allImages sample_page) \<and>
          acc_data (step nearest_double fixed1_value (Timeout k) sample_page)
            = map (\<lambda>img. fixed1_value (img_accuracy img)) (allImages sample_page) \<and>
          length (comp_labels (step nearest_double fixed1_value (Timeout k) sample_page)) = length (loads sample_events) \<and>
          length (acc_data (step nearest_double fixed1_value (Timeout k) sample_page)) = length (loads sample_events)"
    using t by blast
  from this[rule_format, OF k]
  have f1: "timers (step nearest_double fixed1_value (Timeout 0) sample_page)
            = take 0 (timers sample_page) @ drop (Suc 0) (timers sample_page)"
    and f2: "comp_labels (step nearest_double fixed1_value (Timeout 0) sample_page)
            = map img_shortName (allImages sample_page)"
    and f3: "map ds_data (comp_datasets (step nearest_double fixed1_value (Timeout 0) sample_page))
            = map (\<lambda>t. map (\<lambda>img. js_index (img_counts img) (int t)) (allImages sample_page)) [0 ..< 4]"
    and f4: "acc_labels (step nearest_double fixed1_value (Timeout 0) sample_page)
            = map img_shortName (allImages sample_page)"
    and f5: "acc_data (step nearest_double fixed1_value (Timeout 0) sample_page)
            = map (\<lambda>img. fixed1_value (img_accuracy img)) (allImages sample_page)"
    by blast+
  have v: "fixed1_value ''84.5'' = Some (845 / 10)" "fixed1_value ''70.0'' = Some 70"
    by code_simp+
  show ?thesis
    unfolding heads table labels len f1 f2 f3 f4 f5 timers_sample_page sample_page_allImages
    by (simp add: row v js_index_def upt_4)
qed

text \<open>
  Claim C8. On a page with the four datasets of the composition chart, \<open>updateCharts\<close>
  sets both label lists to the short names in store order, the data of dataset \<open>t\<close> to
  \<open>counts[t]\<close> of each record in store order (the count itself for a record with four
  counts), and the accuracy data to \<open>Number\<close> of each accuracy string in store order. The
  new series depend on the store only, whatever the charts held before, and they are empty
  for an empty store. Every page reached from the initial page has the four datasets,
  labelled with \<open>TYPES\<close>.
\<close>

theorem updateCharts_projection:
  assumes "length (comp_datasets s) = 4"
  shows "comp_labels (updateCharts Number s) = map img_shortName (allImages s) \<and>
         acc_labels (updateCharts Number s) = map img_shortName (allImages s) \<and>
         length (comp_datasets (updateCharts Number s)) = 4 \<and>
         map ds_label (comp_datasets (updateCharts Number s)) = map ds_label (comp_datasets s) \<and>
         (\<forall>t < 4. ds_data (comp_datasets (updateCharts Number s) ! t)
                     = map (\<lambda>img. js_index (img_counts img) (int t)) (allImages s)) \<and>
         (\<forall>t < 4. \<forall>i < length (allImages s). length (img_counts (allImages s ! i)) = 4 \<longrightarrow>
                     ds_data (comp_datasets (updateCharts Number s) ! t) ! i
                       = Some (img_counts (allImages s ! i) ! t)) \<and>
         acc_data (updateCharts Number s) = map (\<lambda>img. Number (img_accuracy img)) (allImages s) \<and>
         (\<forall>p. allImages p = allImages s \<and> length (comp_datasets p) = 4 \<longrightarrow>
                series (updateCharts Number p) = series (updateCharts Number s)) \<and>
         (allImages s = [] \<longrightarrow> series (updateCharts Number s) = ([], [[], [], [], []], [], [])) \<and>
         length (comp_datasets (run fl Number es init_page)) = 4 \<and>
         map ds_label (comp_datasets (run fl Number es init_page)) = TYPES"
proof -
  have nth: "\<forall>t < 4. ds_data (comp_datasets (updateCharts Number s) ! t)
                     = map (\<lambda>img. js_index (img_counts img) (int t)) (allImages s)"
    using updateCharts_data_nth[of _ s Number] assms by simp
  have entry: "\<forall>t < 4. \<forall>i < length (allImages s). length (img_counts (allImages s ! i)) = 4 \<longrightarrow>
                     ds_data (comp_datasets (updateCharts Number s) ! t) ! i
                       = Some (img_counts (allImages s ! i) ! t)"
  proof (intro allI impI)
    fix t i :: nat
    assume t: "t < 4" and i: "i < length (allImages s)"
      and len: "length (img_counts (allImages s ! i)) = 4"
    from nth t have "ds_data (comp_datasets (updateCharts Number s) ! t) ! i
        = js_index (img_counts (allImages s ! i)) (int t)"
      using i by simp
    also have "\<dots> = Some (img_counts (allImages s ! i) ! t)"
      using t len by (simp add: js_index_def)
    finally show "ds_data (comp_datasets (updateCharts Number s) ! t) ! i
        = Some (img_counts (allImages s ! i) ! t)" .
  qed
  have repl: "\<forall>p. allImages p = allImages s \<and> length (comp_datasets p) = 4 \<longrightarrow>
                series (updateCharts Number p) = series (updateCharts Number s)"
    unfolding series_def updateCharts_series updateCharts_data using assms by simp
  have empty: "allImages s = [] \<longrightarrow> series (updateCharts Number s) = ([], [[], [], [], []], [], [])"
    unfolding series_def updateCharts_series updateCharts_data using assms by (simp add: upt_4)
  have len: "length (comp_datasets (updateCharts Number s)) = 4"
    using assms by (simp add: updateCharts_length)
  show ?thesis
    by (intro conjI updateCharts_series len updateCharts_labels nth entry repl empty
          reachable_length reachable_labels)
qed

text \<open>The page after \<open>sample_events\<close>: two labels, the second dataset, two accuracies.\<close>

theorem updateCharts_projection_witness:
  "length (comp_datasets sample_page) = 4 \<and>
   comp_labels (updateCharts fixed1_value sample_page) = [''My\"File.png'', ''a_rather_long_f...''] \<and>
   ds_data (comp_datasets (updateCharts fixed1_value sample_page) ! 1) = [Some 5, Some 0] \<and>
   acc_data (updateCharts fixed1_value sample_page) = [Some (845 / 10), Some 70]"
proof -
  have h: "length (comp_datasets sample_page) = 4"
    unfolding sample_page_def by (rule reachable_length)
  note t = updateCharts_projection[OF h, where Number = fixed1_value]
  have l: "comp_labels (updateCharts fixed1_value sample_page) = map img_shortName (allImages sample_page)"
    using t by blast
  have "\<forall>t < 4. ds_data (comp_datasets (updateCharts fixed1_value sample_page) ! t)
                     = map (\<lambda>img. js_index (img_counts img) (int t)) (allImages sample_page)"
    using t by blast
  then have d: "ds_data (comp_datasets (updateCharts fixed1_value sample_page) ! 1)
                     = map (\<lambda>img. js_index (img_counts img) (int 1)) (allImages sample_page)"
    by simp
  have a: "acc_data (updateCharts fixed1_value sample_page)
             = map (\<lambda>img. fixed1_value (img_accuracy img)) (allImages sample_page)"
    using t by blast
  have v: "fixed1_value ''84.5'' = Some (845 / 10)" "fixed1_value ''70.0'' = Some 70"
    by code_simp+
  show ?thesis
    unfolding l d a sample_page_allImages using h v by (simp add: js_index_def)
qed

section \<open>The exports\<close>

text \<open>
  Claim C3. With at least one record in the store, each of four counts, \<open>downloadCSV\<close>
  offers one file whose content is \<open>N + 1\<close> lines joined by line feeds, the header and one
  line per record in store order; every line is eight fields joined by commas, each field
  between double quotes with its own double quotes doubled; read back as CSV, the document
  is the header \<open>Image, DominantType, Size, Accuracy, Fiber, Fragment, Pellet, Microbead\<close>
  followed by one row per record: name, dominant type, size, accuracy with a percent sign,
  and the four counts. The name \<open>My"File.png\<close> is written as \<open>"My""File.png"\<close>.
\<close>

theorem downloadCSV_document:
  assumes "allImages s \<noteq> []" and "\<forall>img \<in> set (allImages s). length (img_counts img) = 4"
  shows "downloads (downloadCSV s) = downloads s @
           [\<lparr>dl_filename = ''microplastics_history.csv'', dl_type = ''text/csv;charset=utf-8;'',
             dl_content = csvContent (allImages s)\<rparr>] \<and>
         alerts (downloadCSV s) = alerts s \<and>
         csvContent (allImages s) = join [CHR 0x0A] (map csv_line (csv_header # map csv_row (allImages s))) \<and>
         length (map csv_line (csv_header # map csv_row (allImages s))) = length (allImages s) + 1 \<and>
         csv_read (csvContent (allImages s)) =
           Some ([''Image'', ''DominantType'', ''Size'', ''Accuracy'', ''Fiber'', ''Fragment'', ''Pellet'', ''Microbead'']
                 # map (\<lambda>img. [img_name img, TYPES ! nat (domTypeIndex (img_counts img)),
                                 String_js (cell_of (img_size img)), img_accuracy img @ ''%'',
                                 String_int (img_counts img ! 0), String_int (img_counts img ! 1),
                                 String_int (img_counts img ! 2), String_int (img_counts img ! 3)])
                       (allImages s)) \<and>
         (\<forall>r \<in> set (csv_header # map csv_row (allImages s)).
            length r = 8 \<and> csv_line r = join '','' (map (\<lambda>c. [CHR 0x22] @ esc (String_js c) @ [CHR 0x22]) r)) \<and>
         csv_line [CStr ''My\"File.png''] = ''\"My\"\"File.png\"''"
proof -
  have dl: "downloads (downloadCSV s) = downloads s @
           [\<lparr>dl_filename = ''microplastics_history.csv'', dl_type = ''text/csv;charset=utf-8;'',
             dl_content = csvContent (allImages s)\<rparr>]"
    and al: "alerts (downloadCSV s) = alerts s"
    using assms(1) by (simp_all add: downloadCSV_def)
  have len: "length (map csv_line (csv_header # map csv_row (allImages s))) = length (allImages s) + 1"
    by simp
  have rows: "map (\<lambda>img. map String_js (csv_row img)) (allImages s)
      = map (\<lambda>img. [img_name img, TYPES ! nat (domTypeIndex (img_counts img)),
                                 String_js (cell_of (img_size img)), img_accuracy img @ ''%'',
                                 String_int (img_counts img ! 0), String_int (img_counts img ! 1),
                                 String_int (img_counts img ! 2), String_int (img_counts img ! 3)])
                       (allImages s)"
    using assms(2) by (intro map_cong refl csv_row_strings) simp
  have rd: "csv_read (csvContent (allImages s)) =
           Some ([''Image'', ''DominantType'', ''Size'', ''Accuracy'', ''Fiber'', ''Fragment'', ''Pellet'', ''Microbead'']
                 # map (\<lambda>img. [img_name img, TYPES ! nat (domTypeIndex (img_counts img)),
                                 String_js (cell_of (img_size img)), img_accuracy img @ ''%'',
                                 String_int (img_counts img ! 0), String_int (img_counts img ! 1),
                                 String_int (img_counts img ! 2), String_int (img_counts img ! 3)])
                       (allImages s))"
    unfolding csv_read_content csv_header_strings rows ..
  have line: "\<And>r. csv_line r = join '','' (map (\<lambda>c. [CHR 0x22] @ esc (String_js c) @ [CHR 0x22]) r)"
  proof -
    fix r
    have "csv_field = (\<lambda>c. [CHR 0x22] @ esc (String_js c) @ [CHR 0x22])"
      by (rule ext) (simp add: csv_field_esc)
    then show "csv_line r = join '','' (map (\<lambda>c. [CHR 0x22] @ esc (String_js c) @ [CHR 0x22]) r)"
      by (simp add: csv_line_def)
  qed
  have eight: "\<forall>r \<in> set (csv_header # map csv_row (allImages s)).
            length r = 8 \<and> csv_line r = join '','' (map (\<lambda>c. [CHR 0x22] @ esc (String_js c) @ [CHR 0x22]) r)"
  proof
    fix r assume "r \<in> set (csv_header # map csv_row (allImages s))"
    then consider "r = csv_header" | img where "img \<in> set (allImages s)" "r = csv_row img" by auto
    then have "length r = 8"
    proof cases
      case 1
      then show ?thesis by (simp add: csv_header_def TYPES_def)
    next
      case 2
      with assms(2) show ?thesis by (simp add: csv_row_def Let_def)
    qed
    with line show "length r = 8 \<and> csv_line r = join '','' (map (\<lambda>c. [CHR 0x22] @ esc (String_js c) @ [CHR 0x22]) r)"
      by simp
  qed
  have ex: "csv_line [CStr ''My\"File.png''] = ''\"My\"\"File.png\"''"
    by (simp add: csv_line_def csv_field_def)
  show ?thesis
    by (intro conjI dl al csvContent_lines len rd eight ex)
qed

text \<open>The page after \<open>sample_events\<close>: a header and two data rows.\<close>

theorem downloadCSV_document_witness:
  "allImages sample_page \<noteq> [] \<and>
   length (allImages sample_page) = 2 \<and>
   csv_read (dl_content (last (downloads (downloadCSV sample_page)))) =
     Some [[''Image'', ''DominantType'', ''Size'', ''Accuracy'', ''Fiber'', ''Fragment'', ''Pellet'', ''Microbead''],
           [''My\"File.png'', ''Fragment'', ''10-50 '' @ [CHR 0xB5] @ ''m'', ''84.5%'', ''3'', ''5'', ''5'', ''0''],
           [''a_rather_long_file_name.png'', ''Fiber'', ''<10 '' @ [CHR 0xB5] @ ''m'', ''70.0%'', ''1'', ''0'', ''0'', ''0'']]"
proof -
  have h1: "allImages sample_page \<noteq> []" by (simp add: sample_page_allImages)
  have h2: "\<forall>img \<in> set (allImages sample_page). length (img_counts img) = 4"
    unfolding sample_page_def by (rule reachable_counts)
  note t = downloadCSV_document[OF h1 h2]
  have d: "dl_content (last (downloads (downloadCSV sample_page))) = csvContent (allImages sample_page)"
    using t[THEN conjunct1] by simp
  note rd = t[THEN conjunct2, THEN conjunct2, THEN conjunct2, THEN conjunct2, THEN conjunct1]
  have i: "domTypeIndex [3, 5, 5, 0] = 1" "domTypeIndex [1, 0, 0, 0] = 0"
    by (simp_all add: domTypeIndex_def indexOf_def)
  have n: "String_int 0 = ''0''" "String_int 1 = ''1''" "String_int 3 = ''3''" "String_int 5 = ''5''"
    by code_simp+
  have "csv_read (csvContent (allImages sample_page)) =
     Some [[''Image'', ''DominantType'', ''Size'', ''Accuracy'', ''Fiber'', ''Fragment'', ''Pellet'', ''Microbead''],
           [''My\"File.png'', ''Fragment'', ''10-50 '' @ [CHR 0xB5] @ ''m'', ''84.5%'', ''3'', ''5'', ''5'', ''0''],
           [''a_rather_long_file_name.png'', ''Fiber'', ''<10 '' @ [CHR 0xB5] @ ''m'', ''70.0%'', ''1'', ''0'', ''0'', ''0'']]"
    using rd unfolding sample_page_allImages by (simp add: i n TYPES_def cell_of_def)
  then show ?thesis unfolding d using h1 by (simp add: sample_page_allImages)
qed

text \<open>
  Claim C4. With no record in the store, \<open>downloadCSV\<close> and \<open>printReport\<close> each add exactly
  one alert, the empty-history notice, and change nothing else: no download, no window, no
  pending timer, and the store, the cards, the table and the charts are as before.
\<close>

theorem exports_on_empty_history:
  assumes "allImages s = []"
  shows "downloadCSV s = s\<lparr>alerts := alerts s @ [''No history to download.'']\<rparr> \<and>
         printReport popup now s = s\<lparr>alerts := alerts s @ [''No history to print.'']\<rparr> \<and>
         downloads (downloadCSV s) = downloads s \<and>
         windows (printReport popup now s) = windows s \<and>
         timers (printReport popup now s) = timers s \<and>
         allImages (downloadCSV s) = [] \<and> allImages (printReport popup now s) = [] \<and>
         imageGrid (downloadCSV s) = imageGrid s \<and> imageGrid (printReport popup now s) = imageGrid s \<and>
         historyTableBody (downloadCSV s) = historyTableBody s \<and>
         historyTableBody (printReport popup now s) = historyTableBody s \<and>
         series (downloadCSV s) = series s \<and> series (printReport popup now s) = series s"
  using assms by (simp add: downloadCSV_def printReport_def series_def)

text \<open>Both exports on the initial page.\<close>

theorem exports_on_empty_history_witness:
  "allImages (init_page :: string page) = [] \<and>
   alerts (downloadCSV (init_page :: string page)) = [''No history to download.''] \<and>
   downloads (downloadCSV (init_page :: string page)) = [] \<and>
   alerts (printReport True ''now'' (init_page :: string page)) = [''No history to print.''] \<and>
   windows (printReport True ''now'' (init_page :: string page)) = [] \<and>
   timers (printReport True ''now'' (init_page :: string page)) = []"
proof -
  have h: "allImages (init_page :: string page) = []" by simp
  from exports_on_empty_history[OF h, of True "''now''"] show ?thesis by simp
qed

text \<open>
  Claim C9. With a record in the store and \<open>window.open\<close> returning no window,
  \<open>printReport\<close> adds exactly one alert, the popup-blocked notice (which differs from the
  empty-history notice), and changes nothing else: no window is written to, no print is
  scheduled, and the store is as before.
\<close>

theorem printReport_popup_blocked:
  assumes "allImages s \<noteq> []"
  shows "printReport False now s = s\<lparr>alerts := alerts s @ [''Popup blocked. Allow popups and try again.'']\<rparr> \<and>
         windows (printReport False now s) = windows s \<and>
         timers (printReport False now s) = timers s \<and>
         downloads (printReport False now s) = downloads s \<and>
         allImages (printReport False now s) = allImages s \<and>
         ''Popup blocked. Allow popups and try again.'' \<noteq> ''No history to print.''"
  using assms by (simp add: printReport_def)

text \<open>The page after \<open>sample_events\<close>: only the two chart timers are pending.\<close>

theorem printReport_popup_blocked_witness:
  "allImages sample_page \<noteq> [] \<and>
   alerts (printReport False ''now'' sample_page) = [''Popup blocked. Allow popups and try again.''] \<and>
   windows (printReport False ''now'' sample_page) = [] \<and>
   timers (printReport False ''now'' sample_page) = [(100, UpdateCharts), (100, UpdateCharts)]"
proof -
  have h: "allImages sample_page \<noteq> []" by (simp add: sample_page_allImages)
  have a: "alerts sample_page = []" and w: "windows sample_page = []"
    and t: "timers sample_page = [(100, UpdateCharts), (100, UpdateCharts)]"
    unfolding sample_page_unfold by simp_all
  from printReport_popup_blocked[OF h, of "''now''"] h a w t show ?thesis by simp
qed

end
